theory Spec2Isabelle
  imports Main "HOL-Library.Word"
begin

unbundle bit_operations_syntax

section \<open>Request data\<close>

text \<open>
  The interfaces \<^verbatim>\<open>Output\<close>, \<^verbatim>\<open>Input\<close>, \<^verbatim>\<open>Transaction\<close> and \<^verbatim>\<open>Block\<close>
  (declared in \<^verbatim>\<open>index.ts\<close>, imported from \<^verbatim>\<open>../types\<close> by the services). The fields
  carry a prefix because \<open>id\<close> and \<open>value\<close> are taken in HOL.

  A JavaScript \<^verbatim>\<open>number\<close> is a double. The model covers the requests whose numbers are
  integers of magnitude at most \<open>2^53\<close>, and holds such a number as the \<open>int\<close> it
  denotes; the sums the code forms from them are rounded as the doubles they are (see
  \<open>toDouble\<close>). A string is the list of its characters; the model covers ASCII strings,
  in which characters, UTF-16 units and UTF-8 bytes are the same.
\<close>

record Output =
  out_address :: string
  out_value :: int

record Input =
  in_txId :: string
  in_index :: int

record Transaction =
  tx_id :: string
  tx_inputs :: "Input list"
  tx_outputs :: "Output list"

record Block =
  block_id :: string
  block_height :: int
  block_transactions :: "Transaction list"

section \<open>The ledger store\<close>

text \<open>
  The tables of \<^verbatim>\<open>database/migrations.ts\<close>. A table is the list of its rows in the order
  of insertion; an \<^verbatim>\<open>UPDATE\<close> changes a row in place and a \<^verbatim>\<open>DELETE\<close> removes it.
  The single row of \<^verbatim>\<open>state\<close> is the field \<open>current_height\<close>.
\<close>

record block_row =
  b_id :: string
  b_height :: int

record tx_row =
  t_id :: string
  t_block_id :: string
  t_block_height :: int

record output_row =
  o_tx_id :: string
  o_output_index :: int
  o_address :: string
  o_value :: int
  o_spent :: bool
  o_spent_by_tx :: "string option"

record store =
  blocks :: "block_row list"
  transactions :: "tx_row list"
  outputs :: "output_row list"
  current_height :: int

text \<open>The store after \<^verbatim>\<open>createTables\<close>: empty tables and the state row \<open>(1, 0)\<close>.\<close>

definition initial_store :: store where
  "initial_store = \<lparr>blocks = [], transactions = [], outputs = [], current_height = 0\<rparr>"

section \<open>Errors\<close>

text \<open>
  The services throw \<^verbatim>\<open>Error\<close> objects told apart by their message; each message is
  one constructor, with the values the message interpolates.
  \<^item> \<open>InvalidHeight expected got\<close>: \<^verbatim>\<open>Invalid height: expected .., got ..\<close>
  \<^item> \<open>InvalidHash expected got\<close>: \<^verbatim>\<open>Invalid block hash: expected .., got ..\<close>
  \<^item> \<open>OutputNotFound txId index\<close>: \<^verbatim>\<open>Output not found: ..[..]\<close>
  \<^item> \<open>ValueMismatch id inputSum outputSum\<close>: \<^verbatim>\<open>Transaction ..: input sum (..) != output sum (..)\<close>
  \<^item> \<open>DoubleSpend txId index\<close>: \<^verbatim>\<open>Output already spent or not found: ..[..]\<close>
  \<^item> \<open>FutureHeight target current\<close>: \<^verbatim>\<open>Cannot rollback to height .. (current: ..)\<close>
  \<^item> \<open>RollbackWindowExceeded requested\<close>: \<^verbatim>\<open>Cannot rollback more than 2000 blocks (requested: ..)\<close>
  \<^item> \<open>InvalidTarget\<close>: the rollback route's \<^verbatim>\<open>height must be a valid positive number\<close>
  \<^item> \<open>StoreFault c\<close>: the database refuses a statement, because it violates the
    constraint named \<open>c\<close> of \<^verbatim>\<open>migrations.ts\<close> (a primary key, the unique height, the
    foreign key of \<^verbatim>\<open>transactions.block_id\<close>), or because it refuses a parameter,
    \<open>c\<close> being then the code of the error (\<open>22021\<close>, \<open>22003\<close> or \<open>22001\<close>).
\<close>

datatype error =
    InvalidHeight int int
  | InvalidHash string string
  | OutputNotFound string int
  | ValueMismatch string int int
  | DoubleSpend string int
  | FutureHeight int int
  | RollbackWindowExceeded int
  | InvalidTarget
  | StoreFault string

section \<open>The digest of \<^verbatim>\<open>utils/hash.ts\<close>\<close>

subsection \<open>SHA-256\<close>

text \<open>
  \<^verbatim>\<open>createHash('sha256').update(data).digest('hex')\<close> is the SHA-256 of FIPS 180-4 over
  the bytes of \<open>data\<close>, printed as 64 lower-case hexadecimal digits. A \<open>string\<close> here
  is the list of those bytes.
\<close>

text \<open>
  The round constants and the initial hash value of the standard are written in decimal.
\<close>

type_synonym u8 = "8 word"
type_synonym u32 = "32 word"

definition rotr :: "nat \<Rightarrow> u32 \<Rightarrow> u32" where
  "rotr n x = drop_bit n x OR push_bit (32 - n) x"

definition K256 :: "u32 list" where
  "K256 = [
   1116352408, 1899447441, 3049323471, 3921009573, 961987163, 1508970993,
   2453635748, 2870763221, 3624381080, 310598401, 607225278, 1426881987,
   1925078388, 2162078206, 2614888103, 3248222580, 3835390401, 4022224774,
   264347078, 604807628, 770255983, 1249150122, 1555081692, 1996064986,
   2554220882, 2821834349, 2952996808, 3210313671, 3336571891, 3584528711,
   113926993, 338241895, 666307205, 773529912, 1294757372, 1396182291,
   1695183700, 1986661051, 2177026350, 2456956037, 2730485921, 2820302411,
   3259730800, 3345764771, 3516065817, 3600352804, 4094571909, 275423344,
   430227734, 506948616, 659060556, 883997877, 958139571, 1322822218,
   1537002063, 1747873779, 1955562222, 2024104815, 2227730452, 2361852424,
   2428436474, 2756734187, 3204031479, 3329325298]"

definition H256 :: "u32 list" where
  "H256 = [1779033703, 3144134277, 1013904242, 2773480762,
           1359893119, 2600822924, 528734635, 1541459225]"

definition Ch :: "u32 \<Rightarrow> u32 \<Rightarrow> u32 \<Rightarrow> u32" where
  "Ch x y z = (x AND y) XOR (NOT x AND z)"

definition Maj :: "u32 \<Rightarrow> u32 \<Rightarrow> u32 \<Rightarrow> u32" where
  "Maj x y z = (x AND y) XOR (x AND z) XOR (y AND z)"

definition Sigma0 :: "u32 \<Rightarrow> u32" where
  "Sigma0 x = rotr 2 x XOR rotr 13 x XOR rotr 22 x"

definition Sigma1 :: "u32 \<Rightarrow> u32" where
  "Sigma1 x = rotr 6 x XOR rotr 11 x XOR rotr 25 x"

definition sigma0 :: "u32 \<Rightarrow> u32" where
  "sigma0 x = rotr 7 x XOR rotr 18 x XOR drop_bit 3 x"

definition sigma1 :: "u32 \<Rightarrow> u32" where
  "sigma1 x = rotr 17 x XOR rotr 19 x XOR drop_bit 10 x"

text \<open>The message schedule, newest word first: \<open>ws = [W(t-1), W(t-2), ...]\<close>.\<close>

fun schedule :: "nat \<Rightarrow> u32 list \<Rightarrow> u32 list" where
  "schedule 0 ws = ws"
| "schedule (Suc n) ws =
     schedule n ((sigma1 (ws ! 1) + ws ! 6 + sigma0 (ws ! 14) + ws ! 15) # ws)"

fun round256 :: "u32 list \<Rightarrow> u32 \<times> u32 \<Rightarrow> u32 list" where
  "round256 [a, b, c, d, e, f, g, h] (k, w) =
     (let t1 = h + Sigma1 e + Ch e f g + k + w;
          t2 = Sigma0 a + Maj a b c
      in [t1 + t2, a, b, c, d + t1, e, f, g])"
| "round256 st _ = st"

definition compress :: "u32 list \<Rightarrow> u32 list \<Rightarrow> u32 list" where
  "compress st blk =
     map2 (+) st (foldl round256 st (zip K256 (rev (schedule 48 (rev blk)))))"

fun be32 :: "u8 list \<Rightarrow> u32 list" where
  "be32 (a # b # c # d # r) =
     (push_bit 24 (ucast a) OR push_bit 16 (ucast b) OR push_bit 8 (ucast c) OR ucast d) # be32 r"
| "be32 _ = []"

fun chunks16 :: "nat \<Rightarrow> u32 list \<Rightarrow> u32 list list" where
  "chunks16 0 ws = []"
| "chunks16 (Suc n) ws = take 16 ws # chunks16 n (drop 16 ws)"

definition be64 :: "64 word \<Rightarrow> u8 list" where
  "be64 n = map (\<lambda>i. ucast (drop_bit (8 * i) n)) [7, 6, 5, 4, 3, 2, 1, 0]"

definition pad :: "u8 list \<Rightarrow> u8 list" where
  "pad bs = bs @ [128] @ replicate ((119 - length bs mod 64) mod 64) 0
              @ be64 (word_of_nat (8 * length bs))"

definition sha256 :: "u8 list \<Rightarrow> u32 list" where
  "sha256 bs = (let p = pad bs in foldl compress H256 (chunks16 (length p div 64) (be32 p)))"

definition hexdigit :: "nat \<Rightarrow> char" where
  "hexdigit n = ''0123456789abcdef'' ! n"

definition hex32 :: "u32 \<Rightarrow> string" where
  "hex32 w = map (\<lambda>i. hexdigit (unat (drop_bit (4 * i) w AND 15))) [7, 6, 5, 4, 3, 2, 1, 0]"

definition sha256_hex :: "string \<Rightarrow> string" where
  "sha256_hex s = concat (map hex32 (sha256 (map (\<lambda>c. word_of_nat (of_char c)) s)))"

subsection \<open>\<^verbatim>\<open>calculateBlockHash\<close>\<close>

text \<open>
  \<^verbatim>\<open>height.toString()\<close> of an integer is its decimal numeral, with a leading minus sign
  when negative (the exponent notation starts at \<open>10^21\<close>, far above any height).
\<close>

fun decimal :: "nat \<Rightarrow> string" where
  "decimal n = (if n < 10 then [''0123456789'' ! n]
                else decimal (n div 10) @ [''0123456789'' ! (n mod 10)])"

declare decimal.simps [simp del]

definition toString :: "int \<Rightarrow> string" where
  "toString n = (if n < 0 then ''-'' @ decimal (nat (- n)) else decimal (nat n))"

definition calculateBlockHash :: "int \<Rightarrow> string list \<Rightarrow> string" where
  "calculateBlockHash height txIds = sha256_hex (toString height @ concat txIds)"

section \<open>JavaScript numbers\<close>

text \<open>
  The double nearest to an integer, ties going to the even significand (the rounding of
  every arithmetic operation of JavaScript and of \<^verbatim>\<open>parseInt\<close>). \<open>halvings a\<close> is the
  number of low bits that do not fit the 53 bits of a significand. Integers of magnitude
  up to \<open>2^53\<close> are doubles. The overflow to \<^verbatim>\<open>Infinity\<close>, above \<open>2^1023\<close>, is not
  modelled: no sum of a request reaches it.
\<close>

function halvings :: "int \<Rightarrow> nat" where
  "halvings a = (if a < 9007199254740992 then 0 else Suc (halvings (a div 2)))"
  by pat_completeness auto
termination
  by (relation "measure nat") auto

declare halvings.simps [simp del]

definition toDouble :: "int \<Rightarrow> int" where
  "toDouble n =
     (let a = \<bar>n\<bar>; e = halvings a; q = a div 2 ^ e; r = a mod 2 ^ e;
          q' = (if 2 * r > 2 ^ e \<or> (2 * r = 2 ^ e \<and> odd q) then q + 1 else q)
      in sgn n * (q' * 2 ^ e))"

section \<open>What the database accepts as a parameter\<close>

text \<open>
  A query sends its parameters as text. PostgreSQL refuses a text that contains the
  character 0 (error 22021), an integer outside the type of the column it is compared
  with or stored in (\<^verbatim>\<open>INTEGER\<close> or \<^verbatim>\<open>BIGINT\<close>, error 22003), and a string stored in
  a \<^verbatim>\<open>VARCHAR(255)\<close> column that is longer than 255 characters, unless the characters
  in excess are all spaces, which it drops (error 22001). The parameters are read in
  order, before the statement is planned; the lengths are checked when it is planned,
  before it runs and meets the keys.
\<close>

definition pg_text :: "string \<Rightarrow> bool" where
  "pg_text str = (CHR 0x00 \<notin> set str)"

definition int4 :: "int \<Rightarrow> bool" where
  "int4 n = (- 2147483648 \<le> n \<and> n \<le> 2147483647)"

definition int8 :: "int \<Rightarrow> bool" where
  "int8 n = (- 9223372036854775808 \<le> n \<and> n \<le> 9223372036854775807)"

definition fits255 :: "string \<Rightarrow> bool" where
  "fits255 str = (\<forall>c \<in> set (drop 255 str). c = CHR '' '')"

definition varchar255 :: "string \<Rightarrow> string" where
  "varchar255 str = take 255 str"

section \<open>Reading the store\<close>

text \<open>
  \<^verbatim>\<open>getOutputValue\<close>, \<^verbatim>\<open>getBalance\<close> and \<^verbatim>\<open>getCurrentHeight\<close> run one
  \<^verbatim>\<open>SELECT\<close> each through \<^verbatim>\<open>pool.query\<close>. The query of \<^verbatim>\<open>getOutputValue\<close> has no
  condition on \<^verbatim>\<open>spent\<close>; the function returns the first row, or \<^verbatim>\<open>null\<close>, and
  throws what the query throws. A \<^verbatim>\<open>BIGINT\<close> and the \<^verbatim>\<open>SUM\<close> of \<^verbatim>\<open>BIGINT\<close>s reach
  JavaScript as decimal strings, which \<^verbatim>\<open>parseInt\<close> turns into doubles.
\<close>

definition getOutputValue :: "store \<Rightarrow> string \<Rightarrow> int \<Rightarrow> error + (string \<times> int) option" where
  "getOutputValue s txId index =
     (if \<not> pg_text txId then Inl (StoreFault ''22021'')
      else if \<not> int4 index then Inl (StoreFault ''22003'')
      else
        case filter (\<lambda>r. o_tx_id r = txId \<and> o_output_index r = index) (outputs s) of
          [] \<Rightarrow> Inr None
        | row # _ \<Rightarrow> Inr (Some (o_address row, toDouble (o_value row))))"

definition getBalance :: "store \<Rightarrow> string \<Rightarrow> error + int" where
  "getBalance s addr =
     (if \<not> pg_text addr then Inl (StoreFault ''22021'')
      else Inr (toDouble (sum_list (map o_value
             (filter (\<lambda>r. o_address r = addr \<and> o_spent r = False) (outputs s))))))"

definition getCurrentHeight :: "store \<Rightarrow> int" where
  "getCurrentHeight s = current_height s"

section \<open>The transaction validator\<close>

text \<open>The loop of \<^verbatim>\<open>calculateInputSum\<close>; \<^verbatim>\<open>sum += output.value\<close> adds two doubles.\<close>

fun calculateInputSum_loop :: "store \<Rightarrow> int \<Rightarrow> Input list \<Rightarrow> error + int" where
  "calculateInputSum_loop s acc [] = Inr acc"
| "calculateInputSum_loop s acc (input # inputs) =
     (case getOutputValue s (in_txId input) (in_index input) of
        Inl e \<Rightarrow> Inl e
      | Inr None \<Rightarrow> Inl (OutputNotFound (in_txId input) (in_index input))
      | Inr (Some output) \<Rightarrow> calculateInputSum_loop s (toDouble (acc + snd output)) inputs)"

definition calculateInputSum :: "store \<Rightarrow> Input list \<Rightarrow> error + int" where
  "calculateInputSum s inputs = calculateInputSum_loop s 0 inputs"

definition validateTransaction :: "store \<Rightarrow> Transaction \<Rightarrow> error + unit" where
  "validateTransaction s tx =
     (let hasInputs = (length (tx_inputs tx) > 0) in
      case (if hasInputs then calculateInputSum s (tx_inputs tx) else Inr 0) of
        Inl e \<Rightarrow> Inl e
      | Inr inputSum \<Rightarrow>
          (let outputSum = foldl (\<lambda>acc out. toDouble (acc + out_value out)) 0 (tx_outputs tx) in
           if hasInputs \<and> inputSum \<noteq> outputSum
           then Inl (ValueMismatch (tx_id tx) inputSum outputSum)
           else Inr ()))"

section \<open>Statements of the client's transaction\<close>

text \<open>
  \<^verbatim>\<open>processBlock\<close> and \<^verbatim>\<open>rollbackToHeight\<close> check a client out of the pool, send
  \<^verbatim>\<open>BEGIN\<close> and write through \<^verbatim>\<open>client.query\<close>. Their writes go to a working copy of
  the store that only a \<^verbatim>\<open>COMMIT\<close> makes the store; \<^verbatim>\<open>ROLLBACK\<close> drops it. A
  statement that fails returns the error together with the working copy as it was then.
  A statement fails when the database refuses one of its parameters, and an \<^verbatim>\<open>INSERT\<close>
  when the row would break a key of \<^verbatim>\<open>migrations.ts\<close>: the primary key and the unique
  height of \<^verbatim>\<open>blocks\<close>, the primary key of \<^verbatim>\<open>transactions\<close> and its reference to
  \<^verbatim>\<open>blocks\<close>, the primary key of \<^verbatim>\<open>outputs\<close>.
\<close>

type_synonym failure = "error \<times> store"

definition insertBlock :: "store \<Rightarrow> string \<Rightarrow> int \<Rightarrow> failure + store" where
  "insertBlock w bid height =
     (if \<not> pg_text bid then Inl (StoreFault ''22021'', w)
      else if \<not> int4 height then Inl (StoreFault ''22003'', w)
      else if \<not> fits255 bid then Inl (StoreFault ''22001'', w)
      else if varchar255 bid \<in> set (map b_id (blocks w)) then Inl (StoreFault ''blocks_pkey'', w)
      else if height \<in> set (map b_height (blocks w)) then Inl (StoreFault ''blocks_height_key'', w)
      else Inr (w\<lparr>blocks := blocks w @ [\<lparr>b_id = varchar255 bid, b_height = height\<rparr>]\<rparr>))"

definition insertTransaction :: "store \<Rightarrow> string \<Rightarrow> string \<Rightarrow> int \<Rightarrow> failure + store" where
  "insertTransaction w tid bid height =
     (if \<not> pg_text tid \<or> \<not> pg_text bid then Inl (StoreFault ''22021'', w)
      else if \<not> int4 height then Inl (StoreFault ''22003'', w)
      else if \<not> fits255 tid \<or> \<not> fits255 bid then Inl (StoreFault ''22001'', w)
      else if varchar255 tid \<in> set (map t_id (transactions w))
      then Inl (StoreFault ''transactions_pkey'', w)
      else if varchar255 bid \<notin> set (map b_id (blocks w))
      then Inl (StoreFault ''transactions_block_id_fkey'', w)
      else Inr (w\<lparr>transactions := transactions w
                   @ [\<lparr>t_id = varchar255 tid, t_block_id = varchar255 bid,
                       t_block_height = height\<rparr>]\<rparr>))"

definition insertOutput :: "store \<Rightarrow> string \<Rightarrow> int \<Rightarrow> string \<Rightarrow> int \<Rightarrow> failure + store" where
  "insertOutput w tid i addr v =
     (if \<not> pg_text tid then Inl (StoreFault ''22021'', w)
      else if \<not> int4 i then Inl (StoreFault ''22003'', w)
      else if \<not> pg_text addr then Inl (StoreFault ''22021'', w)
      else if \<not> int8 v then Inl (StoreFault ''22003'', w)
      else if \<not> fits255 tid \<or> \<not> fits255 addr then Inl (StoreFault ''22001'', w)
      else if (varchar255 tid, i) \<in> set (map (\<lambda>r. (o_tx_id r, o_output_index r)) (outputs w))
      then Inl (StoreFault ''outputs_pkey'', w)
      else Inr (w\<lparr>outputs := outputs w
                   @ [\<lparr>o_tx_id = varchar255 tid, o_output_index = i,
                       o_address = varchar255 addr, o_value = v,
                       o_spent = False, o_spent_by_tx = None\<rparr>]\<rparr>))"

text \<open>
  \<^verbatim>\<open>UPDATE outputs SET spent = TRUE, spent_by_tx = $1 WHERE tx_id = $2 AND output_index = $3
  AND spent = FALSE\<close>: the number of rows it changed, and the working copy after it.
  \<open>markRows\<close> is the update itself, once the parameters are accepted.
\<close>

definition unspentAt :: "string \<Rightarrow> int \<Rightarrow> output_row \<Rightarrow> bool" where
  "unspentAt txId index r = (o_tx_id r = txId \<and> o_output_index r = index \<and> o_spent r = False)"

definition markRows :: "store \<Rightarrow> string \<Rightarrow> string \<Rightarrow> int \<Rightarrow> nat \<times> store" where
  "markRows w spender txId index =
     (length (filter (unspentAt txId index) (outputs w)),
      w\<lparr>outputs := map (\<lambda>r. if unspentAt txId index r
                              then r\<lparr>o_spent := True, o_spent_by_tx := Some spender\<rparr> else r)
                        (outputs w)\<rparr>)"

definition markSpent :: "store \<Rightarrow> string \<Rightarrow> string \<Rightarrow> int \<Rightarrow> failure + nat \<times> store" where
  "markSpent w spender txId index =
     (if \<not> pg_text spender \<or> \<not> pg_text txId then Inl (StoreFault ''22021'', w)
      else if \<not> int4 index then Inl (StoreFault ''22003'', w)
      else if \<not> fits255 spender then Inl (StoreFault ''22001'', w)
      else Inr (markRows w (varchar255 spender) txId index))"

section \<open>Block ingestion\<close>

text \<open>The loop over \<^verbatim>\<open>tx.inputs\<close>.\<close>

fun spendInputs :: "store \<Rightarrow> string \<Rightarrow> Input list \<Rightarrow> failure + store" where
  "spendInputs w spender [] = Inr w"
| "spendInputs w spender (input # inputs) =
     (case markSpent w spender (in_txId input) (in_index input) of
        Inl f \<Rightarrow> Inl f
      | Inr (rowCount, w') \<Rightarrow>
          if rowCount = 0 then Inl (DoubleSpend (in_txId input) (in_index input), w')
          else spendInputs w' spender inputs)"

text \<open>The loop over \<^verbatim>\<open>tx.outputs\<close>, \<open>i\<close> counting from 0.\<close>

fun insertOutputs :: "store \<Rightarrow> string \<Rightarrow> int \<Rightarrow> Output list \<Rightarrow> failure + store" where
  "insertOutputs w tid i [] = Inr w"
| "insertOutputs w tid i (output # rest) =
     (case insertOutput w tid i (out_address output) (out_value output) of
        Inl f \<Rightarrow> Inl f
      | Inr w' \<Rightarrow> insertOutputs w' tid (i + 1) rest)"

text \<open>
  The body of the loop over \<^verbatim>\<open>block.transactions\<close>. \<^verbatim>\<open>validateTransaction(pool, tx)\<close>
  is given the pool, not the client: \<^verbatim>\<open>pool.query\<close> runs on another connection than the
  one checked out for the transaction, and sees the committed store \<open>s\<close>, not the
  working copy \<open>w\<close> of the uncommitted transaction. The three writes go through
  \<^verbatim>\<open>client.query\<close> and work on \<open>w\<close>.
\<close>

definition processTransaction :: "store \<Rightarrow> Block \<Rightarrow> store \<Rightarrow> Transaction \<Rightarrow> failure + store" where
  "processTransaction s block w tx =
     (case validateTransaction s tx of
        Inl e \<Rightarrow> Inl (e, w)
      | Inr _ \<Rightarrow>
          (case insertTransaction w (tx_id tx) (block_id block) (block_height block) of
             Inl f \<Rightarrow> Inl f
           | Inr w1 \<Rightarrow>
               (case spendInputs w1 (tx_id tx) (tx_inputs tx) of
                  Inl f \<Rightarrow> Inl f
                | Inr w2 \<Rightarrow> insertOutputs w2 (tx_id tx) 0 (tx_outputs tx))))"

fun processTransactions :: "store \<Rightarrow> Block \<Rightarrow> store \<Rightarrow> Transaction list \<Rightarrow> failure + store" where
  "processTransactions s block w [] = Inr w"
| "processTransactions s block w (tx # txs) =
     (case processTransaction s block w tx of
        Inl f \<Rightarrow> Inl f
      | Inr w' \<Rightarrow> processTransactions s block w' txs)"

text \<open>
  The \<^verbatim>\<open>try\<close> block of \<^verbatim>\<open>processBlock\<close>, from \<^verbatim>\<open>BEGIN\<close> to the statement before
  \<^verbatim>\<open>COMMIT\<close>. \<^verbatim>\<open>getCurrentHeight(pool)\<close> reads the committed store; the current
  height is an \<^verbatim>\<open>INTEGER\<close> of the database, so \<^verbatim>\<open>currentHeight + 1\<close> is exact. The
  last \<^verbatim>\<open>UPDATE\<close> sets the state row to a height that the \<^verbatim>\<open>INSERT\<close> of the block
  has accepted.
\<close>

definition processBlock_try :: "store \<Rightarrow> Block \<Rightarrow> failure + store" where
  "processBlock_try s block =
     (let currentHeight = getCurrentHeight s in
      if block_height block \<noteq> currentHeight + 1
      then Inl (InvalidHeight (currentHeight + 1) (block_height block), s)
      else
        let txIds = map tx_id (block_transactions block);
            expectedHash = calculateBlockHash (block_height block) txIds in
        if block_id block \<noteq> expectedHash
        then Inl (InvalidHash expectedHash (block_id block), s)
        else
          (case insertBlock s (block_id block) (block_height block) of
             Inl f \<Rightarrow> Inl f
           | Inr w \<Rightarrow>
               (case processTransactions s block w (block_transactions block) of
                  Inl f \<Rightarrow> Inl f
                | Inr w' \<Rightarrow> Inr (w'\<lparr>current_height := block_height block\<rparr>))))"

text \<open>
  \<^verbatim>\<open>processBlock\<close>: the \<^verbatim>\<open>catch\<close> sends \<^verbatim>\<open>ROLLBACK\<close> and throws the error again, the
  end of the \<^verbatim>\<open>try\<close> sends \<^verbatim>\<open>COMMIT\<close>. The result is the error thrown, if any, and the
  store afterwards.
\<close>

definition processBlock :: "store \<Rightarrow> Block \<Rightarrow> error option \<times> store" where
  "processBlock s block =
     (case processBlock_try s block of
        Inl (e, dirty) \<Rightarrow> (Some e, s)
      | Inr w \<Rightarrow> (None, w))"

section \<open>Rollback\<close>

text \<open>
  For one transaction of a block being removed: \<^verbatim>\<open>UPDATE outputs SET spent = FALSE,
  spent_by_tx = NULL WHERE spent_by_tx = $1\<close>, then \<^verbatim>\<open>DELETE FROM outputs WHERE tx_id = $1\<close>.
\<close>

definition unspend :: "string \<Rightarrow> output_row \<Rightarrow> output_row" where
  "unspend tid r =
     (if o_spent_by_tx r = Some tid then r\<lparr>o_spent := False, o_spent_by_tx := None\<rparr> else r)"

definition rollbackTransaction :: "store \<Rightarrow> tx_row \<Rightarrow> store" where
  "rollbackTransaction w tx =
     (let w1 = w\<lparr>outputs := map (unspend (t_id tx)) (outputs w)\<rparr>
      in w1\<lparr>outputs := filter (\<lambda>r. o_tx_id r \<noteq> t_id tx) (outputs w1)\<rparr>)"

text \<open>
  For one block: its transactions are selected by \<^verbatim>\<open>block_height\<close> and undone, then
  deleted by \<^verbatim>\<open>block_height\<close>; then the block row is deleted by \<^verbatim>\<open>id\<close>, which cascades
  to the transactions whose \<^verbatim>\<open>block_id\<close> references it.
\<close>

definition rollbackBlock :: "store \<Rightarrow> block_row \<Rightarrow> store" where
  "rollbackBlock w block =
     (let txs = filter (\<lambda>t. t_block_height t = b_height block) (transactions w);
          w1 = foldl rollbackTransaction w txs;
          w2 = w1\<lparr>transactions :=
                    filter (\<lambda>t. t_block_height t \<noteq> b_height block) (transactions w1)\<rparr>
      in w2\<lparr>blocks := filter (\<lambda>b. b_id b \<noteq> b_id block) (blocks w2),
             transactions := filter (\<lambda>t. t_block_id t \<noteq> b_id block) (transactions w2)\<rparr>)"

text \<open>
  \<^verbatim>\<open>SELECT id, height FROM blocks WHERE height > $1 ORDER BY height DESC\<close>; heights are
  unique, so the order is determined.
\<close>

definition blocksToRemove :: "store \<Rightarrow> int \<Rightarrow> block_row list" where
  "blocksToRemove w targetHeight =
     rev (sort_key b_height (filter (\<lambda>b. b_height b > targetHeight) (blocks w)))"

definition rollbackToHeight_try :: "store \<Rightarrow> int \<Rightarrow> failure + store" where
  "rollbackToHeight_try s targetHeight =
     (let currentHeight = getCurrentHeight s in
      if targetHeight > currentHeight then Inl (FutureHeight targetHeight currentHeight, s)
      else if currentHeight - targetHeight > 2000
      then Inl (RollbackWindowExceeded (currentHeight - targetHeight), s)
      else
        let w = foldl rollbackBlock s (blocksToRemove s targetHeight)
        in Inr (w\<lparr>current_height := targetHeight\<rparr>))"

definition rollbackToHeight :: "store \<Rightarrow> int \<Rightarrow> error option \<times> store" where
  "rollbackToHeight s targetHeight =
     (case rollbackToHeight_try s targetHeight of
        Inl (e, dirty) \<Rightarrow> (Some e, s)
      | Inr w \<Rightarrow> (None, w))"

text \<open>
  The handler of \<^verbatim>\<open>POST /rollback\<close>, from the parsed \<^verbatim>\<open>height\<close> on: a negative target
  is refused before the service is called.
\<close>

definition rollbackRoute :: "store \<Rightarrow> int \<Rightarrow> error option \<times> store" where
  "rollbackRoute s targetHeight =
     (if targetHeight < 0 then (Some InvalidTarget, s) else rollbackToHeight s targetHeight)"

section \<open>Notions used to state the properties\<close>

text \<open>The errors an ingestion can end with.\<close>

definition ingest_error :: "error \<Rightarrow> bool" where
  "ingest_error e =
     (case e of
        InvalidHeight _ _ \<Rightarrow> True | InvalidHash _ _ \<Rightarrow> True | OutputNotFound _ _ \<Rightarrow> True
      | ValueMismatch _ _ _ \<Rightarrow> True | DoubleSpend _ _ \<Rightarrow> True | StoreFault _ \<Rightarrow> True
      | _ \<Rightarrow> False)"

text \<open>The errors raised inside the loop over the transactions.\<close>

definition step_error :: "error \<Rightarrow> bool" where
  "step_error e =
     (case e of
        OutputNotFound _ _ \<Rightarrow> True | ValueMismatch _ _ _ \<Rightarrow> True
      | DoubleSpend _ _ \<Rightarrow> True | StoreFault _ \<Rightarrow> True | _ \<Rightarrow> False)"

text \<open>The rows of the table of outputs that are the output \<open>txId[index]\<close>.\<close>

definition rowsAt :: "store \<Rightarrow> string \<Rightarrow> int \<Rightarrow> output_row list" where
  "rowsAt s txId index =
     filter (\<lambda>r. o_tx_id r = txId \<and> o_output_index r = index) (outputs s)"

text \<open>
  What the validator compares. \<open>referencedValue\<close> is the stored value of the output an
  input references (0 when there is none); \<open>exactInputSum\<close> and \<open>exactOutputSum\<close> are the
  sums of the integers; \<open>jsSum\<close> is a sum as JavaScript forms it, rounding after every
  addition, and \<open>inputSum\<close>, \<open>outputSum\<close> are the two sums formed that way.
  \<open>missingInputs\<close> are the inputs that reference no stored output, \<open>refusedInput\<close> says
  that the database refuses to look an input up, and \<open>badInputs\<close> are the inputs that
  are refused or missing.
\<close>

definition referencedValue :: "store \<Rightarrow> Input \<Rightarrow> int" where
  "referencedValue s i =
     (case rowsAt s (in_txId i) (in_index i) of [] \<Rightarrow> 0 | row # _ \<Rightarrow> o_value row)"

definition exactInputSum :: "store \<Rightarrow> Transaction \<Rightarrow> int" where
  "exactInputSum s tx = sum_list (map (referencedValue s) (tx_inputs tx))"

definition exactOutputSum :: "Transaction \<Rightarrow> int" where
  "exactOutputSum tx = sum_list (map out_value (tx_outputs tx))"

definition jsSum :: "int list \<Rightarrow> int" where
  "jsSum vs = foldl (\<lambda>acc v. toDouble (acc + v)) 0 vs"

definition inputSum :: "store \<Rightarrow> Transaction \<Rightarrow> int" where
  "inputSum s tx = jsSum (map (\<lambda>i. toDouble (referencedValue s i)) (tx_inputs tx))"

definition outputSum :: "Transaction \<Rightarrow> int" where
  "outputSum tx = jsSum (map out_value (tx_outputs tx))"

definition missingInputs :: "store \<Rightarrow> Transaction \<Rightarrow> Input list" where
  "missingInputs s tx =
     filter (\<lambda>i. rowsAt s (in_txId i) (in_index i) = []) (tx_inputs tx)"

definition refusedInput :: "Input \<Rightarrow> bool" where
  "refusedInput i = (CHR 0x00 \<in> set (in_txId i)
                     \<or> in_index i < - 2147483648 \<or> 2147483647 < in_index i)"

definition badInputs :: "store \<Rightarrow> Transaction \<Rightarrow> Input list" where
  "badInputs s tx =
     filter (\<lambda>i. refusedInput i \<or> rowsAt s (in_txId i) (in_index i) = []) (tx_inputs tx)"

text \<open>The error of looking up an input that is refused or missing.\<close>

definition lookupError :: "Input \<Rightarrow> error" where
  "lookupError i =
     (if CHR 0x00 \<in> set (in_txId i) then StoreFault ''22021''
      else if in_index i < - 2147483648 \<or> 2147483647 < in_index i then StoreFault ''22003''
      else OutputNotFound (in_txId i) (in_index i))"

text \<open>
  An id that the database stores: it has no character 0, and beyond 255 characters it
  has only spaces. A height that is an \<^verbatim>\<open>INTEGER\<close>.
\<close>

definition acceptedId :: "string \<Rightarrow> bool" where
  "acceptedId str = (CHR 0x00 \<notin> set str \<and> (\<forall>c \<in> set (drop 255 str). c = CHR '' ''))"

definition acceptedHeight :: "int \<Rightarrow> bool" where
  "acceptedHeight n = (- 2147483648 \<le> n \<and> n \<le> 2147483647)"

text \<open>Whether an output has an unspent row; whether it is stored and already spent.\<close>

definition hasUnspent :: "store \<Rightarrow> string \<Rightarrow> int \<Rightarrow> bool" where
  "hasUnspent s txId index =
     (\<exists>r \<in> set (outputs s). o_tx_id r = txId \<and> o_output_index r = index \<and> \<not> o_spent r)"

definition alreadySpent :: "store \<Rightarrow> string \<Rightarrow> int \<Rightarrow> bool" where
  "alreadySpent s txId index =
     (rowsAt s txId index \<noteq> [] \<and> list_all o_spent (rowsAt s txId index))"



text \<open>
  Undoing a set of transactions on the table of outputs: the outputs they spent are
  unspent, the outputs they created are gone.
\<close>

definition unspendAll :: "string set \<Rightarrow> output_row \<Rightarrow> output_row" where
  "unspendAll N r =
     (if \<exists>t \<in> N. o_spent_by_tx r = Some t
      then r\<lparr>o_spent := False, o_spent_by_tx := None\<rparr> else r)"

definition undoOutputs :: "string set \<Rightarrow> output_row list \<Rightarrow> output_row list" where
  "undoOutputs N rows = filter (\<lambda>r. o_tx_id r \<notin> N) (map (unspendAll N) rows)"

text \<open>
  The consistency of a store between two requests: the heights of the blocks are
  \<open>1, ..., current_height\<close> in order, block ids are unique, every transaction row
  names a stored block and its height, every output belongs to a stored transaction,
  an unspent output has no spender and a spent one is spent by a stored transaction.
\<close>

definition spender_ok :: "store \<Rightarrow> output_row \<Rightarrow> bool" where
  "spender_ok s r =
     ((o_spent r \<longrightarrow> (\<exists>t \<in> set (transactions s). o_spent_by_tx r = Some (t_id t)))
      \<and> (\<not> o_spent r \<longrightarrow> o_spent_by_tx r = None))"

definition outputs_inv :: "store \<Rightarrow> bool" where
  "outputs_inv s =
     (\<forall>r \<in> set (outputs s). o_tx_id r \<in> set (map t_id (transactions s)) \<and> spender_ok s r)"

definition store_inv :: "store \<Rightarrow> bool" where
  "store_inv s =
     (0 \<le> current_height s
      \<and> map b_height (blocks s) = [1..current_height s]
      \<and> distinct (map b_id (blocks s))
      \<and> (\<forall>t \<in> set (transactions s).
            \<lparr>b_id = t_block_id t, b_height = t_block_height t\<rparr> \<in> set (blocks s))
      \<and> outputs_inv s)"

text \<open>
  The rows an ingestion writes for a block and for one of its transactions, and the id
  under which a transaction is stored: a \<^verbatim>\<open>VARCHAR(255)\<close> keeps 255 characters.
\<close>

definition storedId :: "Transaction \<Rightarrow> string" where
  "storedId tx = take 255 (tx_id tx)"

definition block_row_of :: "Block \<Rightarrow> block_row" where
  "block_row_of block = \<lparr>b_id = take 255 (block_id block), b_height = block_height block\<rparr>"

definition tx_row_of :: "Block \<Rightarrow> Transaction \<Rightarrow> tx_row" where
  "tx_row_of block tx =
     \<lparr>t_id = take 255 (tx_id tx), t_block_id = take 255 (block_id block),
      t_block_height = block_height block\<rparr>"

definition chain_tx_rows :: "Block list \<Rightarrow> tx_row list" where
  "chain_tx_rows bs = concat (map (\<lambda>b. map (tx_row_of b) (block_transactions b)) bs)"

text \<open>An unspent output names no spender.\<close>

definition clean :: "store \<Rightarrow> bool" where
  "clean w = (\<forall>r \<in> set (outputs w). \<not> o_spent r \<longrightarrow> o_spent_by_tx r = None)"

text \<open>Ingesting a list of blocks one after the other; \<open>None\<close> if one of them fails.\<close>

fun ingestAll :: "store \<Rightarrow> Block list \<Rightarrow> store option" where
  "ingestAll s [] = Some s"
| "ingestAll s (b # bs) =
     (case processBlock s b of
        (None, s') \<Rightarrow> ingestAll s' bs
      | (Some e, s') \<Rightarrow> None)"

text \<open>
  The stores the service can be in: from the store after \<^verbatim>\<open>createTables\<close>, any sequence
  of block submissions and rollback requests. The first argument records the blocks
  currently on the chain, lowest first.
\<close>

inductive reachable :: "Block list \<Rightarrow> store \<Rightarrow> bool" where
  reachable_init: "reachable [] initial_store"
| reachable_ingest:
    "reachable chain s \<Longrightarrow> processBlock s b = (None, s') \<Longrightarrow> reachable (chain @ [b]) s'"
| reachable_ingest_failed:
    "reachable chain s \<Longrightarrow> processBlock s b = (Some e, s') \<Longrightarrow> reachable chain s'"
| reachable_rollback:
    "reachable chain s \<Longrightarrow> rollbackRoute s T = (None, s') \<Longrightarrow> reachable (take (nat T) chain) s'"
| reachable_rollback_failed:
    "reachable chain s \<Longrightarrow> rollbackRoute s T = (Some e, s') \<Longrightarrow> reachable chain s'"

section \<open>Blocks of the test suite\<close>

text \<open>
  The blocks the tests of \<^verbatim>\<open>index.ts\<close> post, with the ids the tests compute by
  \<^verbatim>\<open>calculateBlockHash\<close>.
\<close>

definition tx1 :: Transaction where
  "tx1 = \<lparr>tx_id = ''tx1'', tx_inputs = [],
          tx_outputs = [\<lparr>out_address = ''addr1'', out_value = 100\<rparr>]\<rparr>"

definition tx2 :: Transaction where
  "tx2 = \<lparr>tx_id = ''tx2'', tx_inputs = [\<lparr>in_txId = ''tx1'', in_index = 0\<rparr>],
          tx_outputs = [\<lparr>out_address = ''addr2'', out_value = 60\<rparr>,
                        \<lparr>out_address = ''addr3'', out_value = 40\<rparr>]\<rparr>"

definition tx2_all :: Transaction where
  "tx2_all = \<lparr>tx_id = ''tx2'', tx_inputs = [\<lparr>in_txId = ''tx1'', in_index = 0\<rparr>],
              tx_outputs = [\<lparr>out_address = ''addr2'', out_value = 100\<rparr>]\<rparr>"

definition tx2_short :: Transaction where
  "tx2_short = \<lparr>tx_id = ''tx2'', tx_inputs = [\<lparr>in_txId = ''tx1'', in_index = 0\<rparr>],
                tx_outputs = [\<lparr>out_address = ''addr2'', out_value = 50\<rparr>]\<rparr>"

definition genesis :: Block where
  "genesis = \<lparr>block_id = calculateBlockHash 1 [''tx1''], block_height = 1,
              block_transactions = [tx1]\<rparr>"

definition block2 :: Block where
  "block2 = \<lparr>block_id = calculateBlockHash 2 [''tx2''], block_height = 2,
             block_transactions = [tx2]\<rparr>"

definition block_at_5 :: Block where
  "block_at_5 = \<lparr>block_id = calculateBlockHash 5 [''tx1''], block_height = 5,
                 block_transactions = [tx1]\<rparr>"

definition block_invalid_hash :: Block where
  "block_invalid_hash = \<lparr>block_id = ''invalid_hash'', block_height = 1,
                         block_transactions = [tx1]\<rparr>"

text \<open>The stores after the genesis block, and after \<open>block2\<close> on top of it.\<close>

definition store1 :: store where
  "store1 =
     \<lparr>blocks = [\<lparr>b_id = calculateBlockHash 1 [''tx1''], b_height = 1\<rparr>],
      transactions = [\<lparr>t_id = ''tx1'', t_block_id = calculateBlockHash 1 [''tx1''],
                       t_block_height = 1\<rparr>],
      outputs = [\<lparr>o_tx_id = ''tx1'', o_output_index = 0, o_address = ''addr1'', o_value = 100,
                  o_spent = False, o_spent_by_tx = None\<rparr>],
      current_height = 1\<rparr>"

definition store2 :: store where
  "store2 =
     \<lparr>blocks = [\<lparr>b_id = calculateBlockHash 1 [''tx1''], b_height = 1\<rparr>,
                \<lparr>b_id = calculateBlockHash 2 [''tx2''], b_height = 2\<rparr>],
      transactions = [\<lparr>t_id = ''tx1'', t_block_id = calculateBlockHash 1 [''tx1''],
                       t_block_height = 1\<rparr>,
                      \<lparr>t_id = ''tx2'', t_block_id = calculateBlockHash 2 [''tx2''],
                       t_block_height = 2\<rparr>],
      outputs = [\<lparr>o_tx_id = ''tx1'', o_output_index = 0, o_address = ''addr1'', o_value = 100,
                  o_spent = True, o_spent_by_tx = Some ''tx2''\<rparr>,
                 \<lparr>o_tx_id = ''tx2'', o_output_index = 0, o_address = ''addr2'', o_value = 60,
                  o_spent = False, o_spent_by_tx = None\<rparr>,
                 \<lparr>o_tx_id = ''tx2'', o_output_index = 1, o_address = ''addr3'', o_value = 40,
                  o_spent = False, o_spent_by_tx = None\<rparr>],
      current_height = 2\<rparr>"

section \<open>Further blocks\<close>

text \<open>
  The block of the test \<^verbatim>\<open>should reject double spending\<close>, posted at height 3 after
  \<open>genesis\<close> and \<open>block2\<close>, and two variants of it: one whose transaction declares
  less than it consumes, one whose transaction carries the id \<open>tx2\<close> again.
\<close>

definition tx3 :: Transaction where
  "tx3 = \<lparr>tx_id = ''tx3'', tx_inputs = [\<lparr>in_txId = ''tx1'', in_index = 0\<rparr>],
          tx_outputs = [\<lparr>out_address = ''addr3'', out_value = 100\<rparr>]\<rparr>"

definition block3 :: Block where
  "block3 = \<lparr>block_id = calculateBlockHash 3 [''tx3''], block_height = 3,
             block_transactions = [tx3]\<rparr>"

definition tx3_short :: Transaction where
  "tx3_short = \<lparr>tx_id = ''tx3'', tx_inputs = [\<lparr>in_txId = ''tx1'', in_index = 0\<rparr>],
                tx_outputs = [\<lparr>out_address = ''addr3'', out_value = 50\<rparr>]\<rparr>"

definition block3_short :: Block where
  "block3_short = \<lparr>block_id = calculateBlockHash 3 [''tx3''], block_height = 3,
                   block_transactions = [tx3_short]\<rparr>"

definition tx2_again :: Transaction where
  "tx2_again = \<lparr>tx_id = ''tx2'', tx_inputs = [\<lparr>in_txId = ''tx1'', in_index = 0\<rparr>],
                tx_outputs = [\<lparr>out_address = ''addr3'', out_value = 100\<rparr>]\<rparr>"

definition block3_again :: Block where
  "block3_again = \<lparr>block_id = calculateBlockHash 3 [''tx2''], block_height = 3,
                   block_transactions = [tx2_again]\<rparr>"

text \<open>A block at the wrong height with the id of the test \<^verbatim>\<open>should reject block with invalid hash\<close>.\<close>

definition block_wrong_height_and_hash :: Block where
  "block_wrong_height_and_hash =
     \<lparr>block_id = ''invalid_hash'', block_height = 5, block_transactions = [tx1]\<rparr>"

text \<open>A first block whose transaction spends an output that no block has created.\<close>

definition block_orphan :: Block where
  "block_orphan = \<lparr>block_id = calculateBlockHash 1 [''tx2''], block_height = 1,
                   block_transactions = [tx2]\<rparr>"

text \<open>
  A first block whose second transaction spends the output of its first transaction.
\<close>

definition block_chained :: Block where
  "block_chained =
     \<lparr>block_id = calculateBlockHash 1 [''tx1'', ''tx2''], block_height = 1,
      block_transactions = [tx1, tx2_all]\<rparr>"

text \<open>
  The store after a first block whose transaction \<open>big\<close> issues \<open>2^53 - 1\<close> and 2, a
  transaction that consumes both and declares \<open>2^53 - 1\<close> and 1, and a transaction
  whose input has the index \<open>2^31\<close>.
\<close>

definition block_big :: Block where
  "block_big =
     \<lparr>block_id = calculateBlockHash 1 [''big''], block_height = 1,
      block_transactions =
        [\<lparr>tx_id = ''big'', tx_inputs = [],
          tx_outputs = [\<lparr>out_address = ''addr1'', out_value = 9007199254740991\<rparr>,
                        \<lparr>out_address = ''addr1'', out_value = 2\<rparr>]\<rparr>]\<rparr>"

definition store_big :: store where
  "store_big =
     \<lparr>blocks = [\<lparr>b_id = calculateBlockHash 1 [''big''], b_height = 1\<rparr>],
      transactions = [\<lparr>t_id = ''big'', t_block_id = calculateBlockHash 1 [''big''],
                       t_block_height = 1\<rparr>],
      outputs = [\<lparr>o_tx_id = ''big'', o_output_index = 0, o_address = ''addr1'',
                  o_value = 9007199254740991, o_spent = False, o_spent_by_tx = None\<rparr>,
                 \<lparr>o_tx_id = ''big'', o_output_index = 1, o_address = ''addr1'',
                  o_value = 2, o_spent = False, o_spent_by_tx = None\<rparr>],
      current_height = 1\<rparr>"

definition spend_big :: Transaction where
  "spend_big =
     \<lparr>tx_id = ''tx2'',
      tx_inputs = [\<lparr>in_txId = ''big'', in_index = 0\<rparr>, \<lparr>in_txId = ''big'', in_index = 1\<rparr>],
      tx_outputs = [\<lparr>out_address = ''addr2'', out_value = 9007199254740991\<rparr>,
                    \<lparr>out_address = ''addr2'', out_value = 1\<rparr>]\<rparr>"

definition spend_far :: Transaction where
  "spend_far =
     \<lparr>tx_id = ''tx2'', tx_inputs = [\<lparr>in_txId = ''big'', in_index = 2147483648\<rparr>],
      tx_outputs = [\<lparr>out_address = ''addr2'', out_value = 1\<rparr>]\<rparr>"


section \<open>Integers that are doubles\<close>

lemma halvings_small: "a < 9007199254740992 \<Longrightarrow> halvings a = 0"
  by (simp add: halvings.simps)

lemma toDouble_exact: "\<bar>n\<bar> \<le> 9007199254740992 \<Longrightarrow> toDouble n = n"
proof (cases "\<bar>n\<bar> < 9007199254740992")
  case True
  then show ?thesis
    by (simp add: toDouble_def halvings_small Let_def sgn_if)
next
  case False
  moreover assume "\<bar>n\<bar> \<le> 9007199254740992"
  ultimately have a: "\<bar>n\<bar> = 9007199254740992"
    by simp
  have "halvings 9007199254740992 = Suc (halvings 4503599627370496)"
    by (subst halvings.simps) simp
  then have h: "halvings 9007199254740992 = 1"
    by (simp add: halvings_small)
  from a show ?thesis
    by (cases "0 \<le> n") (simp_all add: toDouble_def h Let_def sgn_if abs_if)
qed

lemma toDouble_tie: "toDouble 9007199254740993 = 9007199254740992"
proof -
  have "halvings 9007199254740993 = Suc (halvings 4503599627370496)"
    by (subst halvings.simps) simp
  then have h: "halvings 9007199254740993 = 1"
    by (simp add: halvings_small)
  show ?thesis
    by (simp add: toDouble_def h Let_def)
qed

lemma foldl_toDouble_exact:
  "\<forall>v \<in> set vs. 0 \<le> v \<Longrightarrow> 0 \<le> a \<Longrightarrow> a + sum_list vs \<le> 9007199254740992 \<Longrightarrow>
     foldl (\<lambda>acc v. toDouble (acc + v)) a vs = a + sum_list vs"
proof (induction vs arbitrary: a)
  case Nil
  then show ?case by simp
next
  case (Cons v vs)
  from Cons.prems have v: "0 \<le> v" and rest: "\<forall>v \<in> set vs. 0 \<le> v"
    by simp_all
  from rest have "0 \<le> sum_list vs"
    by (simp add: sum_list_nonneg)
  with Cons.prems v have "\<bar>a + v\<bar> \<le> 9007199254740992"
    by simp
  then have e: "toDouble (a + v) = a + v"
    by (rule toDouble_exact)
  from Cons.prems v have "0 \<le> a + v" and "(a + v) + sum_list vs \<le> 9007199254740992"
    by simp_all
  from Cons.IH [OF rest this] e show ?case
    by simp
qed

lemma jsSum_exact:
  "\<forall>v \<in> set vs. 0 \<le> v \<Longrightarrow> sum_list vs \<le> 9007199254740992 \<Longrightarrow> jsSum vs = sum_list vs"
  using foldl_toDouble_exact [of vs 0] by (simp add: jsSum_def)

section \<open>The shape of a digest\<close>

lemma length_round256: "length (round256 st kw) = length st"
  by (induction st kw rule: round256.induct) (simp_all add: Let_def)

lemma length_foldl_round256: "length (foldl round256 st kws) = length st"
  by (induction kws arbitrary: st) (simp_all add: length_round256)

lemma length_compress: "length (compress st blk) = length st"
  by (simp add: compress_def length_foldl_round256)

lemma length_foldl_compress: "length (foldl compress st blks) = length st"
  by (induction blks arbitrary: st) (simp_all add: length_compress)

lemma length_sha256: "length (sha256 bs) = 8"
  by (simp add: sha256_def Let_def length_foldl_compress H256_def)

lemma length_concat_hex32: "length (concat (map hex32 ws)) = 8 * length ws"
  by (induction ws) (simp_all add: hex32_def)

lemma length_calculateBlockHash: "length (calculateBlockHash height txIds) = 64"
  by (simp add: calculateBlockHash_def sha256_hex_def length_concat_hex32 length_sha256)

lemma invalid_hash_differs: "''invalid_hash'' \<noteq> calculateBlockHash height txIds"
proof
  assume "''invalid_hash'' = calculateBlockHash height txIds"
  then have "length ''invalid_hash'' = length (calculateBlockHash height txIds)"
    by (rule arg_cong)
  then show False
    by (simp add: length_calculateBlockHash)
qed

lemma hexdigit_not_null: "n < 16 \<Longrightarrow> hexdigit n \<noteq> CHR 0x00"
proof -
  assume "n < 16"
  then have "''0123456789abcdef'' ! n \<in> set ''0123456789abcdef''"
    by (intro nth_mem) simp
  then show ?thesis
    unfolding hexdigit_def by auto
qed

lemma nibble_less: "unat (w AND (15 :: u32)) < 16"
proof -
  have "w AND 15 \<le> 15"
    by (rule word_and_le1)
  then have "unat (w AND 15) \<le> unat (15 :: u32)"
    by (simp add: word_le_nat_alt)
  then show ?thesis
    by simp
qed

lemma hex32_not_null: "CHR 0x00 \<notin> set (hex32 w)"
proof -
  have "CHR 0x00 \<noteq> hexdigit (unat (x AND 15))" for x :: u32
    using hexdigit_not_null [OF nibble_less, of x] by simp
  then show ?thesis
    by (simp add: hex32_def)
qed

lemma pg_text_calculateBlockHash: "pg_text (calculateBlockHash height txIds)"
  by (auto simp: pg_text_def calculateBlockHash_def sha256_hex_def hex32_not_null)

lemma fits255_calculateBlockHash: "fits255 (calculateBlockHash height txIds)"
  by (simp add: fits255_def length_calculateBlockHash)

lemma varchar255_calculateBlockHash:
  "varchar255 (calculateBlockHash height txIds) = calculateBlockHash height txIds"
  by (simp add: varchar255_def length_calculateBlockHash)

lemmas digest_accepted = pg_text_calculateBlockHash fits255_calculateBlockHash
  varchar255_calculateBlockHash

lemma pg_text_Nil: "pg_text []"
  by (simp add: pg_text_def)

lemma pg_text_Cons: "pg_text (c # cs) = (c \<noteq> CHR 0x00 \<and> pg_text cs)"
  by (auto simp: pg_text_def)

lemma fits255_short: "length str \<le> 255 \<Longrightarrow> fits255 str"
  by (simp add: fits255_def)

lemma varchar255_short: "length str \<le> 255 \<Longrightarrow> varchar255 str = str"
  by (simp add: varchar255_def)

lemmas accepted_simps = digest_accepted pg_text_Nil pg_text_Cons fits255_short varchar255_short
  int4_def int8_def toDouble_exact

section \<open>Which errors a step can raise\<close>

lemma calculateInputSum_loop_error:
  "calculateInputSum_loop s acc inputs = Inl e \<Longrightarrow>
     (\<exists>t i. e = OutputNotFound t i) \<or> (\<exists>c. e = StoreFault c)"
  by (induction inputs arbitrary: acc)
     (auto simp: getOutputValue_def split: sum.splits option.splits if_splits list.splits)

lemma validateTransaction_error:
  "validateTransaction s tx = Inl e \<Longrightarrow>
     (\<exists>t i. e = OutputNotFound t i) \<or> (\<exists>a b. e = ValueMismatch (tx_id tx) a b)
     \<or> (\<exists>c. e = StoreFault c)"
  by (auto simp: validateTransaction_def calculateInputSum_def Let_def
           split: sum.splits if_splits dest: calculateInputSum_loop_error)

lemma insertBlock_error:
  "insertBlock w bid h = Inl (e, d) \<Longrightarrow> \<exists>c. e = StoreFault c"
  by (auto simp: insertBlock_def split: if_splits)

lemma insertTransaction_error:
  "insertTransaction w tid bid h = Inl (e, d) \<Longrightarrow> \<exists>c. e = StoreFault c"
  by (auto simp: insertTransaction_def split: if_splits)

lemma insertOutput_error:
  "insertOutput w tid i addr v = Inl (e, d) \<Longrightarrow> \<exists>c. e = StoreFault c"
  by (auto simp: insertOutput_def split: if_splits)

lemma insertOutputs_error:
  "insertOutputs w tid i outs = Inl (e, d) \<Longrightarrow> \<exists>c. e = StoreFault c"
  by (induction outs arbitrary: w i) (auto split: sum.splits dest: insertOutput_error)

lemma markSpent_error:
  "markSpent w spender txId index = Inl (e, d) \<Longrightarrow> \<exists>c. e = StoreFault c"
  by (auto simp: markSpent_def split: if_splits)

lemma spendInputs_error:
  "spendInputs w spender inputs = Inl (e, d) \<Longrightarrow>
     (\<exists>i \<in> set inputs. e = DoubleSpend (in_txId i) (in_index i)) \<or> (\<exists>c. e = StoreFault c)"
  by (induction inputs arbitrary: w)
     (auto split: sum.splits prod.splits if_splits dest: markSpent_error)

lemma processTransaction_error:
  "processTransaction s block w tx = Inl (e, d) \<Longrightarrow> step_error e"
  by (auto simp: processTransaction_def step_error_def
           split: sum.splits
           dest!: validateTransaction_error insertTransaction_error spendInputs_error
                  insertOutputs_error)

lemma processTransactions_error:
  "processTransactions s block w txs = Inl (e, d) \<Longrightarrow> step_error e"
  by (induction txs arbitrary: w) (auto split: sum.splits dest: processTransaction_error)

lemma processBlock_error:
  "fst (processBlock s block) = Some e \<Longrightarrow> ingest_error e"
  by (auto simp: processBlock_def processBlock_try_def Let_def step_error_def ingest_error_def
           split: sum.splits prod.splits if_splits error.splits
           dest!: insertBlock_error processTransactions_error)

lemmas ingest_defs = processBlock_def processBlock_try_def getCurrentHeight_def
  insertBlock_def processTransaction_def validateTransaction_def calculateInputSum_def
  getOutputValue_def insertTransaction_def insertOutput_def markSpent_def markRows_def
  unspentAt_def Let_def accepted_simps

lemmas test_defs = initial_store_def store1_def store2_def tx1_def tx2_def tx2_all_def tx2_short_def
  genesis_def block2_def block_at_5_def block_invalid_hash_def

section \<open>Atomicity of ingestion\<close>

text \<open>
  A failed attempt has written to the working copy only. In the block below the second
  transaction has the id of the first: when its row is refused, the block row, a
  transaction row and an output row are in the working copy, and none is in the store.
\<close>

lemma uncommitted_writes_dropped:
  "processBlock_try initial_store
     \<lparr>block_id = calculateBlockHash 1 [''tx1'', ''tx1''], block_height = 1,
      block_transactions = [tx1, tx1]\<rparr>
   = Inl (StoreFault ''transactions_pkey'',
          \<lparr>blocks = [\<lparr>b_id = calculateBlockHash 1 [''tx1'', ''tx1''], b_height = 1\<rparr>],
           transactions = [\<lparr>t_id = ''tx1'', t_block_id = calculateBlockHash 1 [''tx1'', ''tx1''],
                            t_block_height = 1\<rparr>],
           outputs = [\<lparr>o_tx_id = ''tx1'', o_output_index = 0, o_address = ''addr1'',
                       o_value = 100, o_spent = False, o_spent_by_tx = None\<rparr>],
           current_height = 0\<rparr>)"
  by (simp add: ingest_defs test_defs)

text \<open>
  C1. For every block and every store, if the ingestion fails, with any error (an invalid
  height, an invalid hash, an output not found, a value mismatch, a double spend or a
  store fault, and there is no other), the store afterwards is the store before: the
  blocks, the transactions, the outputs and the current height are unchanged.
\<close>

theorem failed_ingest_leaves_store:
  "fst (processBlock s block) = Some e \<Longrightarrow>
     snd (processBlock s block) = s
     \<and> blocks (snd (processBlock s block)) = blocks s
     \<and> transactions (snd (processBlock s block)) = transactions s
     \<and> outputs (snd (processBlock s block)) = outputs s
     \<and> current_height (snd (processBlock s block)) = current_height s
     \<and> ingest_error e"
proof -
  assume failed: "fst (processBlock s block) = Some e"
  then have "snd (processBlock s block) = s"
    by (auto simp: processBlock_def split: sum.splits prod.splits)
  with failed show ?thesis
    by (simp add: processBlock_error)
qed

theorem failed_ingest_leaves_store_witness:
  "fst (processBlock initial_store
          \<lparr>block_id = calculateBlockHash 1 [''tx1'', ''tx1''], block_height = 1,
           block_transactions = [tx1, tx1]\<rparr>) = Some (StoreFault ''transactions_pkey'')
   \<and> snd (processBlock initial_store
          \<lparr>block_id = calculateBlockHash 1 [''tx1'', ''tx1''], block_height = 1,
           block_transactions = [tx1, tx1]\<rparr>) = initial_store"
proof -
  have failed: "fst (processBlock initial_store
          \<lparr>block_id = calculateBlockHash 1 [''tx1'', ''tx1''], block_height = 1,
           block_transactions = [tx1, tx1]\<rparr>) = Some (StoreFault ''transactions_pkey'')"
    by (simp add: processBlock_def uncommitted_writes_dropped)
  from failed failed_ingest_leaves_store [OF failed] show ?thesis
    by simp
qed

section \<open>The height check\<close>

text \<open>
  C6. For every block and every store with current height \<open>h\<close>, the ingestion fails with
  the invalid-height error if and only if the height of the block is not \<open>h + 1\<close>; the
  rejection is the same whatever the wrong height is (the error names \<open>h + 1\<close> and the
  height received, and the store is unchanged), and no ingestion of another height than
  \<open>h + 1\<close> succeeds.
\<close>

theorem invalid_height_iff:
  "((\<exists>x y. fst (processBlock s block) = Some (InvalidHeight x y))
      = (block_height block \<noteq> current_height s + 1))
   \<and> (block_height block \<noteq> current_height s + 1 \<longrightarrow>
        processBlock s block
          = (Some (InvalidHeight (current_height s + 1) (block_height block)), s))
   \<and> (fst (processBlock s block) = None \<longrightarrow> block_height block = current_height s + 1)"
  by (auto simp: processBlock_def processBlock_try_def getCurrentHeight_def Let_def step_error_def
           split: sum.splits prod.splits
           dest!: insertBlock_error processTransactions_error)

theorem invalid_height_iff_witness:
  "processBlock initial_store block_at_5 = (Some (InvalidHeight 1 5), initial_store)
   \<and> fst (processBlock initial_store genesis) = None
   \<and> block_height genesis = current_height initial_store + 1"
proof -
  have ok: "fst (processBlock initial_store genesis) = None"
    by (simp add: ingest_defs test_defs)
  have wrong: "block_height block_at_5 \<noteq> current_height initial_store + 1"
    by (simp add: test_defs)
  from invalid_height_iff [of initial_store block_at_5] invalid_height_iff [of initial_store genesis]
    ok wrong
  show ?thesis by (simp add: test_defs)
qed

section \<open>The refusals of a rollback\<close>

text \<open>
  C7. For every store with current height \<open>h\<close> and every target height \<open>T\<close>, the rollback
  fails with the future-height error when \<open>T > h\<close> and with the window error when
  \<open>h - T > 2000\<close>; a depth of exactly 2000, and any smaller one, is not refused; and a
  rollback that fails leaves the store, its record sets and its current height, as it was.
\<close>

theorem rollback_refusals:
  "(targetHeight > current_height s \<longrightarrow>
      rollbackToHeight s targetHeight
        = (Some (FutureHeight targetHeight (current_height s)), s))
   \<and> (current_height s - targetHeight > 2000 \<longrightarrow>
      rollbackToHeight s targetHeight
        = (Some (RollbackWindowExceeded (current_height s - targetHeight)), s))
   \<and> (targetHeight \<le> current_height s \<and> current_height s - targetHeight \<le> 2000 \<longrightarrow>
      fst (rollbackToHeight s targetHeight) = None)
   \<and> (\<forall>e. fst (rollbackToHeight s targetHeight) = Some e \<longrightarrow>
      snd (rollbackToHeight s targetHeight) = s)"
  by (auto simp: rollbackToHeight_def rollbackToHeight_try_def getCurrentHeight_def Let_def
           split: sum.splits prod.splits)

theorem rollback_refusals_witness:
  "rollbackToHeight initial_store 100 = (Some (FutureHeight 100 0), initial_store)
   \<and> rollbackToHeight (initial_store\<lparr>current_height := 2001\<rparr>) 0
       = (Some (RollbackWindowExceeded 2001), initial_store\<lparr>current_height := 2001\<rparr>)
   \<and> fst (rollbackToHeight (initial_store\<lparr>current_height := 2000\<rparr>) 0) = None"
  using rollback_refusals [where targetHeight = 100 and s = initial_store]
        rollback_refusals [where targetHeight = 0
                             and s = "initial_store\<lparr>current_height := 2001\<rparr>"]
        rollback_refusals [where targetHeight = 0
                             and s = "initial_store\<lparr>current_height := 2000\<rparr>"]
  by (simp add: initial_store_def)

section \<open>The validator\<close>

lemma block_big_ingested: "processBlock initial_store block_big = (None, store_big)"
  by (simp add: ingest_defs block_big_def store_big_def initial_store_def toDouble_tie)

lemma calculateInputSum_loop_eq:
  "calculateInputSum_loop s acc inputs =
     (case filter (\<lambda>i. refusedInput i \<or> rowsAt s (in_txId i) (in_index i) = []) inputs of
        [] \<Rightarrow> Inr (foldl (\<lambda>acc v. toDouble (acc + v)) acc
                     (map (\<lambda>i. toDouble (referencedValue s i)) inputs))
      | i # _ \<Rightarrow> Inl (lookupError i))"
proof (induction inputs arbitrary: acc)
  case Nil
  show ?case by simp
next
  case (Cons i inputs)
  show ?case
  proof (cases "refusedInput i \<or> rowsAt s (in_txId i) (in_index i) = []")
    case True
    then show ?thesis
      by (auto simp: getOutputValue_def refusedInput_def lookupError_def rowsAt_def
                     pg_text_def int4_def)
  next
    case False
    then obtain row rows where rows: "rowsAt s (in_txId i) (in_index i) = row # rows"
      by (cases "rowsAt s (in_txId i) (in_index i)") auto
    from False have ok: "pg_text (in_txId i)" "int4 (in_index i)"
      by (auto simp: refusedInput_def pg_text_def int4_def)
    from rows ok have "getOutputValue s (in_txId i) (in_index i)
                         = Inr (Some (o_address row, toDouble (referencedValue s i)))"
      by (simp add: getOutputValue_def rowsAt_def referencedValue_def)
    with False Cons.IH [of "toDouble (acc + toDouble (referencedValue s i))"] show ?thesis
      by (simp split: list.splits)
  qed
qed

lemma foldl_out_value:
  "foldl (\<lambda>acc out. toDouble (acc + out_value out)) a outs
     = foldl (\<lambda>acc v. toDouble (acc + v)) a (map out_value outs)"
  by (induction outs arbitrary: a) auto

lemma validateTransaction_eq:
  "validateTransaction s tx =
     (if tx_inputs tx = [] then Inr ()
      else case badInputs s tx of
             i # _ \<Rightarrow> Inl (lookupError i)
           | [] \<Rightarrow> if inputSum s tx \<noteq> outputSum tx
                   then Inl (ValueMismatch (tx_id tx) (inputSum s tx) (outputSum tx))
                   else Inr ())"
  by (auto simp: validateTransaction_def calculateInputSum_def calculateInputSum_loop_eq
                 foldl_out_value badInputs_def inputSum_def outputSum_def jsSum_def Let_def
           split: list.splits sum.splits)

lemma badInputs_accepted:
  "\<forall>i \<in> set (tx_inputs tx). \<not> refusedInput i \<Longrightarrow> badInputs s tx = missingInputs s tx"
  by (auto simp: badInputs_def missingInputs_def intro: filter_cong)

lemma lookupError_accepted:
  "\<not> refusedInput i \<Longrightarrow> lookupError i = OutputNotFound (in_txId i) (in_index i)"
  by (auto simp: refusedInput_def lookupError_def)

lemma validateTransaction_first_missing:
  assumes acc: "\<forall>i \<in> set (tx_inputs tx). \<not> refusedInput i"
      and miss: "missingInputs s tx \<noteq> []"
  shows "validateTransaction s tx
           = Inl (OutputNotFound (in_txId (hd (missingInputs s tx)))
                                 (in_index (hd (missingInputs s tx))))"
proof -
  note b = badInputs_accepted [OF acc, of s]
  from miss obtain i rest where m: "missingInputs s tx = i # rest"
    by (cases "missingInputs s tx") auto
  then have "i \<in> set (missingInputs s tx)"
    by simp
  then have i: "i \<in> set (tx_inputs tx)"
    by (simp add: missingInputs_def)
  with acc have "\<not> refusedInput i"
    by simp
  moreover from i have "tx_inputs tx \<noteq> []"
    by auto
  ultimately show ?thesis
    using b m by (simp add: validateTransaction_eq lookupError_accepted)
qed

text \<open>
  C4, as stated, fails. The validator compares the two sums as JavaScript numbers, which
  are doubles. In the store that the first block \<open>block_big\<close> leaves, \<open>spend_big\<close>
  consumes \<open>2^53 - 1\<close> and 2 and declares \<open>2^53 - 1\<close> and 1: the sum of its inputs,
  \<open>2^53 + 1\<close>, is rounded to \<open>2^53\<close>, and the validation succeeds though the sums
  differ. And an input whose index is no \<^verbatim>\<open>INTEGER\<close> makes the lookup fail in the
  database, so the validation of \<open>spend_far\<close> fails with a store fault, not with
  \<open>OutputNotFound\<close>, though the output it references does not exist.
\<close>

theorem validation_rounds_sums_counterexample:
  "processBlock initial_store block_big = (None, store_big)
   \<and> tx_inputs spend_big \<noteq> []
   \<and> validateTransaction store_big spend_big = Inr ()
   \<and> exactInputSum store_big spend_big = 9007199254740993
   \<and> exactOutputSum spend_big = 9007199254740992
   \<and> missingInputs store_big spend_big = []
   \<and> missingInputs initial_store spend_far = tx_inputs spend_far
   \<and> tx_inputs spend_far \<noteq> []
   \<and> validateTransaction initial_store spend_far = Inl (StoreFault ''22003'')"
proof -
  have "tx_inputs spend_big \<noteq> []
   \<and> validateTransaction store_big spend_big = Inr ()
   \<and> exactInputSum store_big spend_big = 9007199254740993
   \<and> exactOutputSum spend_big = 9007199254740992
   \<and> missingInputs store_big spend_big = []
   \<and> missingInputs initial_store spend_far = tx_inputs spend_far
   \<and> tx_inputs spend_far \<noteq> []
   \<and> validateTransaction initial_store spend_far = Inl (StoreFault ''22003'')"
    by (simp add: validateTransaction_eq badInputs_def missingInputs_def inputSum_def
                  outputSum_def exactInputSum_def exactOutputSum_def jsSum_def referencedValue_def
                  rowsAt_def refusedInput_def lookupError_def store_big_def spend_big_def
                  spend_far_def initial_store_def toDouble_exact toDouble_tie)
  with block_big_ingested show ?thesis
    by simp
qed

text \<open>
  C4, amended. A transaction with no input is valid, whatever its outputs. For a
  transaction with inputs, the validation looks the inputs up in order and fails at the
  first that the database refuses (a store fault) or that references no stored output
  (\<open>OutputNotFound\<close>); when there is none, it succeeds if the sum of the referenced values
  and the sum of the declared values, each formed in doubles, are equal, and fails with
  \<open>ValueMismatch\<close> naming the two sums otherwise. So when no input is refused: it fails
  with \<open>OutputNotFound\<close>, for the first such input, if a referenced output does not
  exist, and succeeds only if the two sums are equal. The sums in doubles are the sums of
  the integers when the values are not negative and their sums are at most \<open>2^53\<close>.
\<close>

theorem validation_contract:
  "(tx_inputs tx = [] \<longrightarrow> validateTransaction s tx = Inr ())
   \<and> (tx_inputs tx \<noteq> [] \<longrightarrow>
        validateTransaction s tx =
          (case badInputs s tx of
             i # _ \<Rightarrow> Inl (lookupError i)
           | [] \<Rightarrow> if inputSum s tx = outputSum tx then Inr ()
                   else Inl (ValueMismatch (tx_id tx) (inputSum s tx) (outputSum tx))))
   \<and> (tx_inputs tx \<noteq> [] \<and> (\<forall>i \<in> set (tx_inputs tx). \<not> refusedInput i) \<longrightarrow>
        (missingInputs s tx \<noteq> [] \<longrightarrow>
           validateTransaction s tx
             = Inl (OutputNotFound (in_txId (hd (missingInputs s tx)))
                                   (in_index (hd (missingInputs s tx)))))
        \<and> ((validateTransaction s tx = Inr ())
             = (missingInputs s tx = [] \<and> inputSum s tx = outputSum tx)))
   \<and> ((\<forall>i \<in> set (tx_inputs tx). 0 \<le> referencedValue s i)
        \<and> exactInputSum s tx \<le> 9007199254740992 \<longrightarrow>
        inputSum s tx = exactInputSum s tx)
   \<and> ((\<forall>out \<in> set (tx_outputs tx). 0 \<le> out_value out)
        \<and> exactOutputSum tx \<le> 9007199254740992 \<longrightarrow>
        outputSum tx = exactOutputSum tx)"
proof -
  have 1: "tx_inputs tx = [] \<longrightarrow> validateTransaction s tx = Inr ()"
    by (simp add: validateTransaction_eq)
  have 2: "tx_inputs tx \<noteq> [] \<longrightarrow>
        validateTransaction s tx =
          (case badInputs s tx of
             i # _ \<Rightarrow> Inl (lookupError i)
           | [] \<Rightarrow> if inputSum s tx = outputSum tx then Inr ()
                   else Inl (ValueMismatch (tx_id tx) (inputSum s tx) (outputSum tx)))"
    by (simp add: validateTransaction_eq split: list.splits)
  have 3: "tx_inputs tx \<noteq> [] \<and> (\<forall>i \<in> set (tx_inputs tx). \<not> refusedInput i) \<longrightarrow>
        (missingInputs s tx \<noteq> [] \<longrightarrow>
           validateTransaction s tx
             = Inl (OutputNotFound (in_txId (hd (missingInputs s tx)))
                                   (in_index (hd (missingInputs s tx)))))
        \<and> ((validateTransaction s tx = Inr ())
             = (missingInputs s tx = [] \<and> inputSum s tx = outputSum tx))"
  proof (intro impI, elim conjE)
    assume ne: "tx_inputs tx \<noteq> []" and acc: "\<forall>i \<in> set (tx_inputs tx). \<not> refusedInput i"
    note b = badInputs_accepted [OF acc, of s]
    show "(missingInputs s tx \<noteq> [] \<longrightarrow>
           validateTransaction s tx
             = Inl (OutputNotFound (in_txId (hd (missingInputs s tx)))
                                   (in_index (hd (missingInputs s tx)))))
        \<and> ((validateTransaction s tx = Inr ())
             = (missingInputs s tx = [] \<and> inputSum s tx = outputSum tx))"
    proof (cases "missingInputs s tx")
      case Nil
      with ne b show ?thesis
        by (simp add: validateTransaction_eq)
    next
      case (Cons i rest)
      then have "missingInputs s tx \<noteq> []"
        by simp
      from validateTransaction_first_missing [OF acc this] Cons show ?thesis
        by simp
    qed
  qed
  have 4: "(\<forall>i \<in> set (tx_inputs tx). 0 \<le> referencedValue s i)
        \<and> exactInputSum s tx \<le> 9007199254740992 \<longrightarrow>
        inputSum s tx = exactInputSum s tx"
  proof (intro impI, elim conjE)
    assume nn: "\<forall>i \<in> set (tx_inputs tx). 0 \<le> referencedValue s i"
       and le: "exactInputSum s tx \<le> 9007199254740992"
    have "referencedValue s i \<le> 9007199254740992" if "i \<in> set (tx_inputs tx)" for i
    proof -
      from that nn have "referencedValue s i \<le> sum_list (map (referencedValue s) (tx_inputs tx))"
        by (intro member_le_sum_list) auto
      with le show ?thesis
        by (simp add: exactInputSum_def)
    qed
    with nn have m: "map (\<lambda>i. toDouble (referencedValue s i)) (tx_inputs tx)
                    = map (referencedValue s) (tx_inputs tx)"
      by (simp add: toDouble_exact)
    from nn le have j: "jsSum (map (referencedValue s) (tx_inputs tx))
                    = sum_list (map (referencedValue s) (tx_inputs tx))"
      by (intro jsSum_exact) (auto simp: exactInputSum_def)
    show "inputSum s tx = exactInputSum s tx"
      unfolding inputSum_def exactInputSum_def m by (rule j)
  qed
  have 5: "(\<forall>out \<in> set (tx_outputs tx). 0 \<le> out_value out)
        \<and> exactOutputSum tx \<le> 9007199254740992 \<longrightarrow>
        outputSum tx = exactOutputSum tx"
    by (auto simp: outputSum_def exactOutputSum_def intro!: jsSum_exact)
  from 1 2 3 4 5 show ?thesis
    by (intro conjI)
qed

theorem validation_contract_witness:
  "validateTransaction store1 tx2 = Inr ()
   \<and> inputSum store1 tx2 = 100 \<and> outputSum tx2 = 100
   \<and> validateTransaction initial_store tx2 = Inl (OutputNotFound ''tx1'' 0)
   \<and> validateTransaction store1 tx2_short = Inl (ValueMismatch ''tx2'' 100 50)
   \<and> validateTransaction initial_store tx1 = Inr ()
   \<and> validateTransaction initial_store spend_far = Inl (StoreFault ''22003'')
   \<and> validateTransaction store_big spend_big = Inr ()
   \<and> inputSum store_big spend_big = 9007199254740992"
proof -
  have a: "tx_inputs tx2 \<noteq> [] \<and> (\<forall>i \<in> set (tx_inputs tx2). \<not> refusedInput i)
           \<and> missingInputs store1 tx2 = [] \<and> badInputs store1 tx2 = []
           \<and> (\<forall>i \<in> set (tx_inputs tx2). 0 \<le> referencedValue store1 i)
           \<and> exactInputSum store1 tx2 = 100
           \<and> (\<forall>out \<in> set (tx_outputs tx2). 0 \<le> out_value out)
           \<and> exactOutputSum tx2 = 100"
    by (simp add: test_defs missingInputs_def badInputs_def exactInputSum_def exactOutputSum_def
                  referencedValue_def rowsAt_def refusedInput_def)
  with validation_contract [of tx2 store1]
  have A: "validateTransaction store1 tx2 = Inr ()
           \<and> inputSum store1 tx2 = 100 \<and> outputSum tx2 = 100"
    by simp
  have b: "tx_inputs tx2 \<noteq> [] \<and> (\<forall>i \<in> set (tx_inputs tx2). \<not> refusedInput i)
           \<and> missingInputs initial_store tx2 = [\<lparr>in_txId = ''tx1'', in_index = 0\<rparr>]
           \<and> badInputs initial_store tx2 = [\<lparr>in_txId = ''tx1'', in_index = 0\<rparr>]
           \<and> lookupError \<lparr>in_txId = ''tx1'', in_index = 0\<rparr> = OutputNotFound ''tx1'' 0"
    by (simp add: test_defs missingInputs_def badInputs_def lookupError_def rowsAt_def
                  refusedInput_def)
  with validation_contract [of tx2 initial_store]
  have B: "validateTransaction initial_store tx2 = Inl (OutputNotFound ''tx1'' 0)"
    by simp
  have c: "tx_inputs tx2_short \<noteq> [] \<and> badInputs store1 tx2_short = []
           \<and> (\<forall>i \<in> set (tx_inputs tx2_short). 0 \<le> referencedValue store1 i)
           \<and> exactInputSum store1 tx2_short = 100
           \<and> (\<forall>out \<in> set (tx_outputs tx2_short). 0 \<le> out_value out)
           \<and> exactOutputSum tx2_short = 50
           \<and> tx_id tx2_short = ''tx2''"
    by (simp add: test_defs badInputs_def exactInputSum_def exactOutputSum_def
                  referencedValue_def rowsAt_def refusedInput_def)
  with validation_contract [of tx2_short store1]
  have C: "validateTransaction store1 tx2_short = Inl (ValueMismatch ''tx2'' 100 50)"
    by simp
  have d: "tx_inputs tx1 = []"
    by (simp add: test_defs)
  with validation_contract [of tx1 initial_store]
  have D: "validateTransaction initial_store tx1 = Inr ()"
    by simp
  have e: "tx_inputs spend_far \<noteq> []
           \<and> badInputs initial_store spend_far = [\<lparr>in_txId = ''big'', in_index = 2147483648\<rparr>]
           \<and> lookupError \<lparr>in_txId = ''big'', in_index = 2147483648\<rparr> = StoreFault ''22003''"
    by (simp add: spend_far_def badInputs_def refusedInput_def lookupError_def)
  with validation_contract [of spend_far initial_store]
  have E: "validateTransaction initial_store spend_far = Inl (StoreFault ''22003'')"
    by simp
  have f: "tx_inputs spend_big \<noteq> [] \<and> badInputs store_big spend_big = []
           \<and> inputSum store_big spend_big = 9007199254740992
           \<and> (\<forall>out \<in> set (tx_outputs spend_big). 0 \<le> out_value out)
           \<and> exactOutputSum spend_big = 9007199254740992"
    by (simp add: spend_big_def store_big_def badInputs_def refusedInput_def rowsAt_def
                  inputSum_def jsSum_def referencedValue_def exactOutputSum_def
                  toDouble_exact toDouble_tie)
  with validation_contract [of spend_big store_big]
  have F: "validateTransaction store_big spend_big = Inr ()
           \<and> inputSum store_big spend_big = 9007199254740992"
    by simp
  from A B C D E F show ?thesis
    by simp
qed

section \<open>What a successful step writes\<close>

lemma insertBlock_Inr:
  "insertBlock w bid h = Inr w' \<Longrightarrow>
     w' = w\<lparr>blocks := blocks w @ [\<lparr>b_id = take 255 bid, b_height = h\<rparr>]\<rparr>
     \<and> take 255 bid \<notin> set (map b_id (blocks w)) \<and> h \<notin> set (map b_height (blocks w))"
  by (auto simp: insertBlock_def varchar255_def split: if_splits)

lemma insertTransaction_Inr:
  "insertTransaction w tid bid h = Inr w' \<Longrightarrow>
     w' = w\<lparr>transactions := transactions w
               @ [\<lparr>t_id = take 255 tid, t_block_id = take 255 bid, t_block_height = h\<rparr>]\<rparr>
     \<and> take 255 tid \<notin> set (map t_id (transactions w))
     \<and> take 255 bid \<in> set (map b_id (blocks w))"
  by (auto simp: insertTransaction_def varchar255_def split: if_splits)

lemma insertOutput_Inr:
  "insertOutput w tid i addr v = Inr w' \<Longrightarrow>
     w' = w\<lparr>outputs := outputs w
               @ [\<lparr>o_tx_id = take 255 tid, o_output_index = i, o_address = take 255 addr,
                   o_value = v, o_spent = False, o_spent_by_tx = None\<rparr>]\<rparr>"
  by (auto simp: insertOutput_def varchar255_def split: if_splits)

lemma spendInputs_Cons_Inr:
  "spendInputs w sp (i # inputs) = Inr w' \<Longrightarrow>
     \<exists>n w1. markRows w (take 255 sp) (in_txId i) (in_index i) = (n, w1) \<and> n \<noteq> 0
        \<and> markSpent w sp (in_txId i) (in_index i) = Inr (n, w1)
        \<and> spendInputs w1 sp inputs = Inr w'"
  by (auto simp: markSpent_def varchar255_def split: if_splits sum.splits prod.splits)

lemma markRows_frame:
  "blocks (snd (markRows w sp t i)) = blocks w
   \<and> transactions (snd (markRows w sp t i)) = transactions w
   \<and> current_height (snd (markRows w sp t i)) = current_height w"
  by (simp add: markRows_def)

lemma spendInputs_frame:
  "spendInputs w sp inputs = Inr w' \<Longrightarrow>
     blocks w' = blocks w \<and> transactions w' = transactions w
     \<and> current_height w' = current_height w"
proof (induction inputs arbitrary: w)
  case Nil
  then show ?case by simp
next
  case (Cons i inputs)
  from spendInputs_Cons_Inr [OF Cons.prems(1)] obtain n w1 where
    m: "markRows w (take 255 sp) (in_txId i) (in_index i) = (n, w1)" and
    r: "spendInputs w1 sp inputs = Inr w'"
    by blast
  from Cons.IH [OF r] markRows_frame [of w "take 255 sp" "in_txId i" "in_index i"] m
  show ?case by simp
qed

lemma insertOutputs_frame:
  "insertOutputs w tid i outs = Inr w' \<Longrightarrow>
     blocks w' = blocks w \<and> transactions w' = transactions w
     \<and> current_height w' = current_height w"
  by (induction outs arbitrary: w i)
     (auto split: sum.splits dest!: insertOutput_Inr)

lemma processTransaction_frame:
  assumes "processTransaction s block w tx = Inr w'"
  shows "blocks w' = blocks w \<and> current_height w' = current_height w
         \<and> transactions w' = transactions w @ [tx_row_of block tx]
         \<and> take 255 (tx_id tx) \<notin> set (map t_id (transactions w))
         \<and> take 255 (block_id block) \<in> set (map b_id (blocks w))"
proof -
  from assms obtain w1 w2 where
    1: "insertTransaction w (tx_id tx) (block_id block) (block_height block) = Inr w1" and
    2: "spendInputs w1 (tx_id tx) (tx_inputs tx) = Inr w2" and
    3: "insertOutputs w2 (tx_id tx) 0 (tx_outputs tx) = Inr w'"
    by (auto simp: processTransaction_def split: sum.splits)
  from insertTransaction_Inr [OF 1] spendInputs_frame [OF 2] insertOutputs_frame [OF 3]
  show ?thesis by (simp add: tx_row_of_def)
qed

lemma processTransactions_frame:
  "processTransactions s block w txs = Inr w' \<Longrightarrow>
     blocks w' = blocks w \<and> current_height w' = current_height w
     \<and> transactions w' = transactions w @ map (tx_row_of block) txs
     \<and> set (map storedId txs) \<inter> set (map t_id (transactions w)) = {}
     \<and> distinct (map storedId txs)"
proof (induction txs arbitrary: w)
  case Nil
  then show ?case by simp
next
  case (Cons tx txs)
  from Cons.prems obtain w1 where
    1: "processTransaction s block w tx = Inr w1" and
    2: "processTransactions s block w1 txs = Inr w'"
    by (auto split: sum.splits)
  from processTransaction_frame [OF 1] Cons.IH [OF 2]
  show ?case by (auto simp: tx_row_of_def storedId_def)
qed

section \<open>Undoing on the outputs\<close>

lemma unspendAll_tx_id [simp]: "o_tx_id (unspendAll N r) = o_tx_id r"
  by (simp add: unspendAll_def)

lemma unspent_row_eq:
  "\<not> o_spent r \<Longrightarrow> o_spent_by_tx r = None \<Longrightarrow>
     r\<lparr>o_spent := False, o_spent_by_tx := None\<rparr> = r"
  by (cases r) simp

lemma unspendAll_marked:
  "sp \<in> N \<Longrightarrow> \<not> o_spent r \<Longrightarrow> o_spent_by_tx r = None \<Longrightarrow>
     unspendAll N (r\<lparr>o_spent := True, o_spent_by_tx := Some sp\<rparr>) = unspendAll N r"
  by (simp add: unspendAll_def unspent_row_eq)

lemma markRows_undo:
  assumes "sp \<in> N" "clean w"
  shows "undoOutputs N (outputs (snd (markRows w sp t i))) = undoOutputs N (outputs w)
         \<and> clean (snd (markRows w sp t i))"
proof -
  have "\<And>r. r \<in> set (outputs w) \<Longrightarrow>
          unspendAll N (if unspentAt t i r then r\<lparr>o_spent := True, o_spent_by_tx := Some sp\<rparr> else r)
            = unspendAll N r"
    using assms by (simp add: clean_def unspentAt_def unspendAll_marked)
  then have "map (unspendAll N) (outputs (snd (markRows w sp t i))) = map (unspendAll N) (outputs w)"
    by (simp add: markRows_def)
  moreover have "clean (snd (markRows w sp t i))"
    using assms(2) by (auto simp: markRows_def clean_def)
  ultimately show ?thesis by (simp add: undoOutputs_def)
qed

lemma spendInputs_undo:
  "spendInputs w sp inputs = Inr w' \<Longrightarrow> take 255 sp \<in> N \<Longrightarrow> clean w \<Longrightarrow>
     undoOutputs N (outputs w') = undoOutputs N (outputs w) \<and> clean w'"
proof (induction inputs arbitrary: w)
  case Nil
  then show ?case by simp
next
  case (Cons i inputs)
  from spendInputs_Cons_Inr [OF Cons.prems(1)] obtain n w1 where
    m: "markRows w (take 255 sp) (in_txId i) (in_index i) = (n, w1)" and
    r: "spendInputs w1 sp inputs = Inr w'"
    by blast
  from markRows_undo [OF Cons.prems(2,3), of "in_txId i" "in_index i"] m
  have 1: "undoOutputs N (outputs w1) = undoOutputs N (outputs w)" and 2: "clean w1"
    by simp_all
  from Cons.IH [OF r Cons.prems(2) 2] 1 show ?case by simp
qed

lemma insertOutputs_undo:
  "insertOutputs w tid i outs = Inr w' \<Longrightarrow> take 255 tid \<in> N \<Longrightarrow> clean w \<Longrightarrow>
     undoOutputs N (outputs w') = undoOutputs N (outputs w) \<and> clean w'"
proof (induction outs arbitrary: w i)
  case Nil
  then show ?case by simp
next
  case (Cons out outs)
  from Cons.prems(1) obtain w1 where
    1: "insertOutput w tid i (out_address out) (out_value out) = Inr w1" and
    2: "insertOutputs w1 tid (i + 1) outs = Inr w'"
    by (auto split: sum.splits)
  from 1 have w1: "w1 = w\<lparr>outputs := outputs w
        @ [\<lparr>o_tx_id = take 255 tid, o_output_index = i, o_address = take 255 (out_address out),
             o_value = out_value out, o_spent = False, o_spent_by_tx = None\<rparr>]\<rparr>"
    by (rule insertOutput_Inr)
  from Cons.prems(2,3) have 3: "undoOutputs N (outputs w1) = undoOutputs N (outputs w)" and 4: "clean w1"
    by (simp_all add: w1 undoOutputs_def clean_def)
  from Cons.IH [OF 2 Cons.prems(2) 4] 3 show ?case by simp
qed

lemma processTransaction_undo:
  assumes "processTransaction s block w tx = Inr w'" "storedId tx \<in> N" "clean w"
  shows "undoOutputs N (outputs w') = undoOutputs N (outputs w) \<and> clean w'"
proof -
  from assms(1) obtain w1 w2 where
    1: "insertTransaction w (tx_id tx) (block_id block) (block_height block) = Inr w1" and
    2: "spendInputs w1 (tx_id tx) (tx_inputs tx) = Inr w2" and
    3: "insertOutputs w2 (tx_id tx) 0 (tx_outputs tx) = Inr w'"
    by (auto simp: processTransaction_def split: sum.splits)
  from insertTransaction_Inr [OF 1] assms(3) have c1: "clean w1" and o1: "outputs w1 = outputs w"
    by (auto simp: clean_def)
  from assms(2) have n: "take 255 (tx_id tx) \<in> N"
    by (simp add: storedId_def)
  from spendInputs_undo [OF 2 n c1] insertOutputs_undo [OF 3 n] o1
  show ?thesis by simp
qed

lemma processTransactions_undo:
  "processTransactions s block w txs = Inr w' \<Longrightarrow> set (map storedId txs) \<subseteq> N \<Longrightarrow> clean w \<Longrightarrow>
     undoOutputs N (outputs w') = undoOutputs N (outputs w) \<and> clean w'"
proof (induction txs arbitrary: w)
  case Nil
  then show ?case by simp
next
  case (Cons tx txs)
  from Cons.prems(1) obtain w1 where
    1: "processTransaction s block w tx = Inr w1" and
    2: "processTransactions s block w1 txs = Inr w'"
    by (auto split: sum.splits)
  from Cons.prems(2) have in_N: "storedId tx \<in> N" and rest: "set (map storedId txs) \<subseteq> N"
    by simp_all
  from processTransaction_undo [OF 1 in_N Cons.prems(3)] Cons.IH [OF 2 rest]
  show ?case by simp
qed

lemma undoOutputs_id:
  assumes "outputs_inv s" "N \<inter> set (map t_id (transactions s)) = {}"
  shows "undoOutputs N (outputs s) = outputs s"
proof -
  have "unspendAll N r = r \<and> o_tx_id r \<notin> N" if r: "r \<in> set (outputs s)" for r
  proof -
    from assms(1) r have own: "o_tx_id r \<in> set (map t_id (transactions s))" and sp: "spender_ok s r"
      by (simp_all add: outputs_inv_def)
    have "\<not> (\<exists>t \<in> N. o_spent_by_tx r = Some t)"
    proof (cases "o_spent r")
      case True
      with sp obtain t where t: "o_spent_by_tx r = Some t" "t \<in> set (map t_id (transactions s))"
        by (auto simp: spender_ok_def)
      from t(2) assms(2) have "t \<notin> N"
        by auto
      with t(1) show ?thesis
        by simp
    next
      case False
      with sp show ?thesis by (simp add: spender_ok_def)
    qed
    moreover from own assms(2) have "o_tx_id r \<notin> N"
      by auto
    ultimately show ?thesis
      by (simp add: unspendAll_def)
  qed
  then show ?thesis
    by (simp add: undoOutputs_def map_idI)
qed

lemma outputs_inv_clean: "outputs_inv s \<Longrightarrow> clean s"
  by (simp add: outputs_inv_def clean_def spender_ok_def)

lemma unspend_unspendAll: "unspend t = unspendAll {t}"
  by (rule ext) (simp add: unspend_def unspendAll_def)

lemma unspendAll_twice: "unspendAll N (unspendAll {t} r) = unspendAll (insert t N) r"
proof (cases "o_spent_by_tx r = Some t")
  case True
  then show ?thesis by (simp add: unspendAll_def)
next
  case False
  then show ?thesis by (simp add: unspendAll_def)
qed

lemma undoOutputs_insert:
  "undoOutputs N (undoOutputs {t} rows) = undoOutputs (insert t N) rows"
proof (induction rows)
  case Nil
  show ?case by (simp add: undoOutputs_def)
next
  case (Cons r rows)
  then show ?case
    by (simp add: unspendAll_twice undoOutputs_def)
qed

lemma rollbackTransaction_outputs:
  "rollbackTransaction w tx = w\<lparr>outputs := undoOutputs {t_id tx} (outputs w)\<rparr>"
  by (simp add: rollbackTransaction_def undoOutputs_def unspend_unspendAll Let_def)

lemma foldl_rollbackTransaction:
  "foldl rollbackTransaction w txs = w\<lparr>outputs := undoOutputs (set (map t_id txs)) (outputs w)\<rparr>"
proof (induction txs arbitrary: w)
  case Nil
  have "undoOutputs {} (outputs w) = outputs w"
    by (simp add: undoOutputs_def unspendAll_def map_idI split: option.splits)
  then show ?case by simp
next
  case (Cons tx txs)
  have "foldl rollbackTransaction w (tx # txs)
          = foldl rollbackTransaction (rollbackTransaction w tx) txs"
    by simp
  also have "\<dots> = (rollbackTransaction w tx)
      \<lparr>outputs := undoOutputs (set (map t_id txs)) (outputs (rollbackTransaction w tx))\<rparr>"
    by (rule Cons.IH)
  also have "\<dots> = w\<lparr>outputs := undoOutputs (set (map t_id (tx # txs))) (outputs w)\<rparr>"
    by (simp add: rollbackTransaction_outputs undoOutputs_insert)
  finally show ?case .
qed


section \<open>The invariant of the outputs through a block\<close>

lemma outputs_inv_cong:
  "outputs w' = outputs w \<Longrightarrow> transactions w' = transactions w \<Longrightarrow>
     outputs_inv w' = outputs_inv w"
  by (simp add: outputs_inv_def spender_ok_def)

lemma markRows_outputs_inv:
  "outputs_inv w \<Longrightarrow> sp \<in> set (map t_id (transactions w)) \<Longrightarrow>
     outputs_inv (snd (markRows w sp t i))"
  by (auto simp: outputs_inv_def spender_ok_def markRows_def unspentAt_def)

lemma spendInputs_outputs_inv:
  "spendInputs w sp inputs = Inr w' \<Longrightarrow> outputs_inv w \<Longrightarrow>
     take 255 sp \<in> set (map t_id (transactions w)) \<Longrightarrow> outputs_inv w'"
proof (induction inputs arbitrary: w)
  case Nil
  then show ?case by simp
next
  case (Cons i inputs)
  from spendInputs_Cons_Inr [OF Cons.prems(1)] obtain n w1 where
    m: "markRows w (take 255 sp) (in_txId i) (in_index i) = (n, w1)" and
    r: "spendInputs w1 sp inputs = Inr w'"
    by blast
  from markRows_outputs_inv [OF Cons.prems(2,3), of "in_txId i" "in_index i"] m
  have 1: "outputs_inv w1" by simp
  from markRows_frame [of w "take 255 sp" "in_txId i" "in_index i"] m Cons.prems(3)
  have 2: "take 255 sp \<in> set (map t_id (transactions w1))" by simp
  from Cons.IH [OF r 1 2] show ?case .
qed

lemma insertOutputs_outputs_inv:
  "insertOutputs w tid i outs = Inr w' \<Longrightarrow> outputs_inv w \<Longrightarrow>
     take 255 tid \<in> set (map t_id (transactions w)) \<Longrightarrow> outputs_inv w'"
proof (induction outs arbitrary: w i)
  case Nil
  then show ?case by simp
next
  case (Cons out outs)
  from Cons.prems(1) obtain w1 where
    1: "insertOutput w tid i (out_address out) (out_value out) = Inr w1" and
    2: "insertOutputs w1 tid (i + 1) outs = Inr w'"
    by (auto split: sum.splits)
  from 1 have w1: "w1 = w\<lparr>outputs := outputs w
        @ [\<lparr>o_tx_id = take 255 tid, o_output_index = i, o_address = take 255 (out_address out),
             o_value = out_value out, o_spent = False, o_spent_by_tx = None\<rparr>]\<rparr>"
    by (rule insertOutput_Inr)
  from Cons.prems(2,3) have 3: "outputs_inv w1" and 4: "take 255 tid \<in> set (map t_id (transactions w1))"
    by (simp_all add: w1 outputs_inv_def spender_ok_def)
  from Cons.IH [OF 2 3 4] show ?case .
qed

lemma processTransaction_outputs_inv:
  assumes "processTransaction s block w tx = Inr w'" "outputs_inv w"
  shows "outputs_inv w'"
proof -
  from assms(1) obtain w1 w2 where
    1: "insertTransaction w (tx_id tx) (block_id block) (block_height block) = Inr w1" and
    2: "spendInputs w1 (tx_id tx) (tx_inputs tx) = Inr w2" and
    3: "insertOutputs w2 (tx_id tx) 0 (tx_outputs tx) = Inr w'"
    by (auto simp: processTransaction_def split: sum.splits)
  from insertTransaction_Inr [OF 1]
  have w1: "w1 = w\<lparr>transactions := transactions w
        @ [\<lparr>t_id = take 255 (tx_id tx), t_block_id = take 255 (block_id block),
            t_block_height = block_height block\<rparr>]\<rparr>"
    by simp
  from assms(2)
  have i1: "outputs_inv w1" and m1: "take 255 (tx_id tx) \<in> set (map t_id (transactions w1))"
    by (auto simp: w1 outputs_inv_def spender_ok_def)
  from spendInputs_outputs_inv [OF 2 i1 m1] have i2: "outputs_inv w2" .
  from spendInputs_frame [OF 2] m1 have m2: "take 255 (tx_id tx) \<in> set (map t_id (transactions w2))"
    by simp
  from insertOutputs_outputs_inv [OF 3 i2 m2] show ?thesis .
qed

lemma processTransactions_outputs_inv:
  "processTransactions s block w txs = Inr w' \<Longrightarrow> outputs_inv w \<Longrightarrow> outputs_inv w'"
proof (induction txs arbitrary: w)
  case Nil
  then show ?case by simp
next
  case (Cons tx txs)
  from Cons.prems(1) obtain w1 where
    1: "processTransaction s block w tx = Inr w1" and
    2: "processTransactions s block w1 txs = Inr w'"
    by (auto split: sum.splits)
  from Cons.IH [OF 2 processTransaction_outputs_inv [OF 1 Cons.prems(2)]] show ?case .
qed

section \<open>What a successful ingestion writes\<close>

lemma processBlock_success:
  assumes "processBlock s block = (None, s')" "outputs_inv s"
  shows "block_height block = current_height s + 1
         \<and> current_height s' = block_height block
         \<and> blocks s' = blocks s @ [block_row_of block]
         \<and> take 255 (block_id block) \<notin> set (map b_id (blocks s))
         \<and> transactions s' = transactions s @ map (tx_row_of block) (block_transactions block)
         \<and> set (map storedId (block_transactions block)) \<inter> set (map t_id (transactions s)) = {}
         \<and> distinct (map storedId (block_transactions block))
         \<and> undoOutputs (set (map storedId (block_transactions block))) (outputs s') = outputs s
         \<and> outputs_inv s'"
proof -
  from assms(1) obtain w0 w1 where
    h: "block_height block = current_height s + 1" and
    0: "insertBlock s (block_id block) (block_height block) = Inr w0" and
    1: "processTransactions s block w0 (block_transactions block) = Inr w1" and
    s': "s' = w1\<lparr>current_height := block_height block\<rparr>"
    by (auto simp: processBlock_def processBlock_try_def getCurrentHeight_def Let_def
             split: sum.splits prod.splits if_splits)
  note b = insertBlock_Inr [OF 0]
  from b assms(2) have inv0: "outputs_inv w0"
    by (simp add: outputs_inv_def spender_ok_def)
  note f = processTransactions_frame [OF 1]
  from f b have disj: "set (map storedId (block_transactions block)) \<inter> set (map t_id (transactions s)) = {}"
    by simp
  have "undoOutputs (set (map storedId (block_transactions block))) (outputs w1)
          = undoOutputs (set (map storedId (block_transactions block))) (outputs w0)"
    using processTransactions_undo [OF 1 subset_refl outputs_inv_clean [OF inv0]] by simp
  also have "\<dots> = undoOutputs (set (map storedId (block_transactions block))) (outputs s)"
    using b by simp
  also have "\<dots> = outputs s"
    by (rule undoOutputs_id [OF assms(2) disj])
  finally have u: "undoOutputs (set (map storedId (block_transactions block))) (outputs w1) = outputs s" .
  from processTransactions_outputs_inv [OF 1 inv0] have "outputs_inv w1" .
  then have "outputs_inv s'"
    by (simp add: s' outputs_inv_def spender_ok_def)
  with h b f u disj show ?thesis
    by (simp add: s' block_row_of_def)
qed

lemma store_inv_heights:
  "store_inv s \<Longrightarrow> t \<in> set (transactions s) \<Longrightarrow>
     1 \<le> t_block_height t \<and> t_block_height t \<le> current_height s
     \<and> t_block_id t \<in> set (map b_id (blocks s))"
proof -
  assume inv: "store_inv s" and t: "t \<in> set (transactions s)"
  then have row: "\<lparr>b_id = t_block_id t, b_height = t_block_height t\<rparr> \<in> set (blocks s)"
    by (simp add: store_inv_def)
  then have "t_block_height t \<in> set (map b_height (blocks s))" and "t_block_id t \<in> set (map b_id (blocks s))"
    by force+
  with inv show ?thesis by (simp add: store_inv_def)
qed

lemma processBlock_store_inv:
  assumes "processBlock s block = (None, s')" "store_inv s"
  shows "store_inv s'"
proof -
  from assms(2) have oi: "outputs_inv s" by (simp add: store_inv_def)
  note p = processBlock_success [OF assms(1) oi]
  from assms(2) have h0: "0 \<le> current_height s" and
       hs: "map b_height (blocks s) = [1..current_height s]" and
       ds: "distinct (map b_id (blocks s))" and
       ts: "\<forall>t \<in> set (transactions s). \<lparr>b_id = t_block_id t, b_height = t_block_height t\<rparr> \<in> set (blocks s)"
    by (simp_all add: store_inv_def)
  have "[1..current_height s + 1] = [1..current_height s] @ [current_height s + 1]"
    using h0 by (simp add: upto_rec2)
  with p hs have 1: "map b_height (blocks s') = [1..current_height s']"
    by (simp add: block_row_of_def)
  from p ds have 2: "distinct (map b_id (blocks s'))"
    by (simp add: block_row_of_def)
  from p ts have 3: "\<forall>t \<in> set (transactions s'). \<lparr>b_id = t_block_id t, b_height = t_block_height t\<rparr> \<in> set (blocks s')"
    by (auto simp: block_row_of_def tx_row_of_def)
  from p h0 1 2 3 show ?thesis
    by (simp add: store_inv_def)
qed

section \<open>Undoing the last block\<close>

lemma rollbackBlock_undoes:
  assumes "processBlock s block = (None, s')" "store_inv s"
  shows "rollbackBlock (s'\<lparr>current_height := c\<rparr>) (block_row_of block) = s\<lparr>current_height := c\<rparr>"
proof -
  from assms(2) have oi: "outputs_inv s" by (simp add: store_inv_def)
  note p = processBlock_success [OF assms(1) oi]
  let ?h = "block_height block"
  let ?new = "map (tx_row_of block) (block_transactions block)"
  have old: "\<forall>t \<in> set (transactions s). t_block_height t \<noteq> ?h \<and> t_block_id t \<noteq> take 255 (block_id block)"
    using store_inv_heights [OF assms(2)] p by force
  have sel: "filter (\<lambda>t. t_block_height t = ?h) (transactions s') = ?new"
    using p old by (simp add: tx_row_of_def filter_empty_conv o_def)
  have del: "filter (\<lambda>t. t_block_height t \<noteq> ?h) (transactions s') = transactions s"
    using p old by (simp add: tx_row_of_def filter_empty_conv filter_id_conv o_def)
  have casc: "filter (\<lambda>t. t_block_id t \<noteq> take 255 (block_id block)) (transactions s) = transactions s"
    using old by (simp add: filter_id_conv)
  from p have fresh: "take 255 (block_id block) \<notin> b_id ` set (blocks s)"
    by simp
  have nb: "\<forall>b \<in> set (blocks s). b_id b \<noteq> take 255 (block_id block)"
  proof
    fix b
    assume "b \<in> set (blocks s)"
    then have "b_id b \<in> b_id ` set (blocks s)"
      by (rule imageI)
    with fresh show "b_id b \<noteq> take 255 (block_id block)"
      by auto
  qed
  have blk: "filter (\<lambda>b. b_id b \<noteq> take 255 (block_id block)) (blocks s') = blocks s"
    using p nb by (simp add: block_row_of_def filter_id_conv)
  have ids: "set (map t_id ?new) = set (map storedId (block_transactions block))"
    by (simp add: tx_row_of_def storedId_def o_def)
  have outs: "undoOutputs (set (map t_id ?new)) (outputs s') = outputs s"
    using p ids by simp
  let ?w = "s'\<lparr>current_height := c\<rparr>"
  have sel': "filter (\<lambda>t. t_block_height t = b_height (block_row_of block)) (transactions ?w) = ?new"
    using sel by (simp add: block_row_of_def)
  have 1: "foldl rollbackTransaction ?w ?new = ?w\<lparr>outputs := outputs s\<rparr>"
    using outs by (simp only: foldl_rollbackTransaction) simp
  have 2: "filter (\<lambda>t. t_block_height t \<noteq> b_height (block_row_of block))
             (transactions (?w\<lparr>outputs := outputs s\<rparr>)) = transactions s"
    using del by (simp add: block_row_of_def)
  have 3: "filter (\<lambda>b. b_id b \<noteq> b_id (block_row_of block)) (blocks s') = blocks s"
    using blk by (simp add: block_row_of_def)
  have 4: "filter (\<lambda>t. t_block_id t \<noteq> b_id (block_row_of block)) (transactions s) = transactions s"
    using casc by (simp add: block_row_of_def)
  have "rollbackBlock ?w (block_row_of block)
          = ?w\<lparr>outputs := outputs s, transactions := transactions s,
                blocks := blocks s, transactions := transactions s\<rparr>"
    unfolding rollbackBlock_def Let_def sel' 1 2
    by (simp add: 3 4)
  also have "\<dots> = s\<lparr>current_height := c\<rparr>"
    by (rule store.equality) simp_all
  finally show ?thesis .
qed


section \<open>Undoing several blocks\<close>

lemma rollbackBlock_current_height:
  "rollbackBlock (w\<lparr>current_height := c\<rparr>) b = (rollbackBlock w b)\<lparr>current_height := c\<rparr>"
  by (simp add: rollbackBlock_def Let_def foldl_rollbackTransaction)

lemma foldl_rollbackBlock_current_height:
  "foldl rollbackBlock (w\<lparr>current_height := c\<rparr>) bs
     = (foldl rollbackBlock w bs)\<lparr>current_height := c\<rparr>"
proof (induction bs arbitrary: w)
  case Nil
  show ?case by simp
next
  case (Cons b bs)
  have "foldl rollbackBlock (w\<lparr>current_height := c\<rparr>) (b # bs)
          = foldl rollbackBlock ((rollbackBlock w b)\<lparr>current_height := c\<rparr>) bs"
    by (simp add: rollbackBlock_current_height)
  also have "\<dots> = (foldl rollbackBlock (rollbackBlock w b) bs)\<lparr>current_height := c\<rparr>"
    by (rule Cons.IH)
  finally show ?case by simp
qed

lemma blocksToRemove_rev:
  assumes "store_inv s"
  shows "blocksToRemove s T = rev (filter (\<lambda>b. b_height b > T) (blocks s))"
proof -
  from assms have "sorted (map b_height (blocks s))"
    by (simp add: store_inv_def)
  then have "sorted (map b_height (filter (\<lambda>b. b_height b > T) (blocks s)))"
    by (rule sorted_filter)
  then show ?thesis
    by (simp add: blocksToRemove_def sort_key_id_if_sorted)
qed

lemma blocksToRemove_none:
  assumes "store_inv s" "current_height s \<le> T"
  shows "blocksToRemove s T = []"
proof -
  have "\<forall>b \<in> set (blocks s). \<not> b_height b > T"
  proof
    fix b
    assume "b \<in> set (blocks s)"
    then have "b_height b \<in> set (map b_height (blocks s))"
      by simp
    with assms show "\<not> b_height b > T"
      by (simp add: store_inv_def)
  qed
  then show ?thesis
    by (simp add: blocksToRemove_rev [OF assms(1)] filter_empty_conv)
qed

lemma ingestAll_append:
  "ingestAll s (xs @ ys) = (case ingestAll s xs of None \<Rightarrow> None | Some s1 \<Rightarrow> ingestAll s1 ys)"
  by (induction xs arbitrary: s) (auto split: prod.splits option.splits)

lemma ingestAll_snoc:
  "ingestAll s (bs @ [b]) = Some s' \<Longrightarrow>
     \<exists>s1. ingestAll s bs = Some s1 \<and> processBlock s1 b = (None, s')"
  by (auto simp: ingestAll_append split: option.splits prod.splits)

lemma ingestAll_store_inv:
  "ingestAll s bs = Some s' \<Longrightarrow> store_inv s \<Longrightarrow>
     store_inv s' \<and> current_height s' = current_height s + int (length bs)"
proof (induction bs arbitrary: s)
  case Nil
  then show ?case by simp
next
  case (Cons b bs)
  from Cons.prems(1) obtain s1 where
    1: "processBlock s b = (None, s1)" and 2: "ingestAll s1 bs = Some s'"
    by (auto split: prod.splits option.splits)
  from processBlock_store_inv [OF 1 Cons.prems(2)] have i1: "store_inv s1" .
  from Cons.prems(2) have "outputs_inv s" by (simp add: store_inv_def)
  from processBlock_success [OF 1 this] have "current_height s1 = current_height s + 1"
    by simp
  with Cons.IH [OF 2 i1] show ?case by simp
qed

lemma unwind:
  "ingestAll s0 bs = Some s \<Longrightarrow> store_inv s0 \<Longrightarrow> k \<le> length bs \<Longrightarrow>
     \<exists>sk. ingestAll s0 (take k bs) = Some sk
        \<and> foldl rollbackBlock s (blocksToRemove s (current_height s0 + int k))
            = sk\<lparr>current_height := current_height s\<rparr>"
proof (induction bs arbitrary: s k rule: rev_induct)
  case Nil
  then have "s = s0" and "k = 0" by simp_all
  with Nil.prems(2) show ?case
    by (simp add: blocksToRemove_none)
next
  case (snoc b bs)
  from ingestAll_snoc [OF snoc.prems(1)] obtain s1 where
    1: "ingestAll s0 bs = Some s1" and 2: "processBlock s1 b = (None, s)"
    by blast
  from ingestAll_store_inv [OF 1 snoc.prems(2)] have
    i1: "store_inv s1" and h1: "current_height s1 = current_height s0 + int (length bs)"
    by simp_all
  from processBlock_store_inv [OF 2 i1] have i: "store_inv s" .
  from i1 have "outputs_inv s1" by (simp add: store_inv_def)
  note p = processBlock_success [OF 2 this]
  show ?case
  proof (cases "k = length bs + 1")
    case True
    with p h1 have "current_height s \<le> current_height s0 + int k"
      by simp
    from blocksToRemove_none [OF i this] True snoc.prems(1) show ?thesis
      by simp
  next
    case False
    with snoc.prems(3) have k: "k \<le> length bs" by simp
    let ?T = "current_height s0 + int k"
    from snoc.IH [OF 1 snoc.prems(2) k] obtain sk where
      sk: "ingestAll s0 (take k bs) = Some sk" and
      u: "foldl rollbackBlock s1 (blocksToRemove s1 ?T) = sk\<lparr>current_height := current_height s1\<rparr>"
      by blast
    from k h1 p have above: "b_height (block_row_of b) > ?T"
      by (simp add: block_row_of_def)
    have "blocksToRemove s ?T = block_row_of b # blocksToRemove s1 ?T"
      using p above by (simp add: blocksToRemove_rev [OF i] blocksToRemove_rev [OF i1])
    then have "foldl rollbackBlock s (blocksToRemove s ?T)
                 = foldl rollbackBlock (rollbackBlock (s\<lparr>current_height := current_height s\<rparr>) (block_row_of b))
                     (blocksToRemove s1 ?T)"
      by simp
    also have "\<dots> = foldl rollbackBlock (s1\<lparr>current_height := current_height s\<rparr>) (blocksToRemove s1 ?T)"
      by (simp only: rollbackBlock_undoes [OF 2 i1])
    also have "\<dots> = sk\<lparr>current_height := current_height s\<rparr>"
      by (simp add: foldl_rollbackBlock_current_height u)
    finally show ?thesis
      using sk k by simp
  qed
qed

lemma store_inv_initial: "store_inv initial_store"
  by (simp add: store_inv_def outputs_inv_def initial_store_def)

lemma rollback_exact:
  assumes "ingestAll initial_store chain = Some s" "0 \<le> T" "T \<le> current_height s"
          "current_height s - T \<le> 2000"
  shows "\<exists>s'. rollbackToHeight s T = (None, s')
            \<and> ingestAll initial_store (take (nat T) chain) = Some s' \<and> current_height s' = T"
proof -
  from ingestAll_store_inv [OF assms(1) store_inv_initial]
  have h: "current_height s = int (length chain)"
    by (simp add: initial_store_def)
  with assms(2,3) have k: "nat T \<le> length chain" by simp
  from unwind [OF assms(1) store_inv_initial k] assms(2) obtain sk where
    sk: "ingestAll initial_store (take (nat T) chain) = Some sk" and
    u: "foldl rollbackBlock s (blocksToRemove s T) = sk\<lparr>current_height := current_height s\<rparr>"
    by (auto simp: initial_store_def)
  from ingestAll_store_inv [OF sk store_inv_initial] assms(2) k
  have hk: "current_height sk = T"
    by (simp add: initial_store_def)
  have "sk\<lparr>current_height := T\<rparr> = sk"
    using hk by (cases sk) auto
  with assms(3,4) u have "rollbackToHeight s T = (None, sk)"
    by (simp add: rollbackToHeight_def rollbackToHeight_try_def getCurrentHeight_def Let_def)
  with sk hk show ?thesis by simp
qed

lemma rollbackToHeight_ok:
  "rollbackToHeight s T = (None, s') \<Longrightarrow> T \<le> current_height s \<and> current_height s - T \<le> 2000"
  by (auto simp: rollbackToHeight_def rollbackToHeight_try_def getCurrentHeight_def Let_def
           split: if_splits)

lemma rollbackToHeight_failed:
  "rollbackToHeight s T = (Some e, s') \<Longrightarrow> s' = s"
  by (auto simp: rollbackToHeight_def rollbackToHeight_try_def getCurrentHeight_def Let_def
           split: if_splits)

lemma reachable_ingestAll:
  "reachable chain s \<Longrightarrow> ingestAll initial_store chain = Some s"
proof (induction rule: reachable.induct)
  case reachable_init
  show ?case by simp
next
  case (reachable_ingest chain s b s')
  then show ?case by (simp add: ingestAll_append)
next
  case (reachable_ingest_failed chain s b e s')
  then have "s' = s"
    by (auto simp: processBlock_def split: sum.splits prod.splits)
  with reachable_ingest_failed show ?case by simp
next
  case (reachable_rollback chain s T s')
  from reachable_rollback.hyps(2) have T: "0 \<le> T" and r: "rollbackToHeight s T = (None, s')"
    by (auto simp: rollbackRoute_def split: if_splits)
  from rollback_exact [OF reachable_rollback.IH T] rollbackToHeight_ok [OF r] r
  show ?case by auto
next
  case (reachable_rollback_failed chain s T e s')
  then have "s' = s"
    by (auto simp: rollbackRoute_def dest: rollbackToHeight_failed split: if_splits)
  with reachable_rollback_failed show ?case by simp
qed


section \<open>What a chain of ingestions writes\<close>

lemma unspendAll_union: "unspendAll N (unspendAll M r) = unspendAll (M \<union> N) r"
proof (cases "\<exists>t \<in> M. o_spent_by_tx r = Some t")
  case True
  then show ?thesis by (auto simp: unspendAll_def)
next
  case False
  then show ?thesis by (auto simp: unspendAll_def)
qed

lemma undoOutputs_union:
  "undoOutputs N (undoOutputs M rows) = undoOutputs (M \<union> N) rows"
proof (induction rows)
  case Nil
  show ?case by (simp add: undoOutputs_def)
next
  case (Cons r rows)
  then show ?case
    by (simp add: unspendAll_union undoOutputs_def)
qed

lemma ingestAll_success:
  "ingestAll s1 bs = Some s2 \<Longrightarrow> store_inv s1 \<Longrightarrow>
     blocks s2 = blocks s1 @ map block_row_of bs
     \<and> transactions s2 = transactions s1 @ chain_tx_rows bs
     \<and> undoOutputs (set (map t_id (chain_tx_rows bs))) (outputs s2) = outputs s1
     \<and> (\<forall>b \<in> set bs. current_height s1 < block_height b)"
proof (induction bs arbitrary: s1)
  case Nil
  have "undoOutputs {} (outputs s1) = outputs s1"
    by (simp add: undoOutputs_def unspendAll_def map_idI)
  with Nil show ?case by (simp add: chain_tx_rows_def)
next
  case (Cons b bs)
  from Cons.prems(1) obtain s where
    1: "processBlock s1 b = (None, s)" and 2: "ingestAll s bs = Some s2"
    by (auto split: prod.splits option.splits)
  from processBlock_store_inv [OF 1 Cons.prems(2)] have i: "store_inv s" .
  from Cons.prems(2) have "outputs_inv s1" by (simp add: store_inv_def)
  note p = processBlock_success [OF 1 this]
  note ih = Cons.IH [OF 2 i]
  let ?Nb = "set (map storedId (block_transactions b))"
  let ?M = "set (map t_id (chain_tx_rows bs))"
  have ids: "set (map t_id (chain_tx_rows (b # bs))) = ?M \<union> ?Nb"
    by (auto simp: chain_tx_rows_def tx_row_of_def storedId_def)
  have "undoOutputs (?M \<union> ?Nb) (outputs s2) = undoOutputs ?Nb (undoOutputs ?M (outputs s2))"
    by (simp only: undoOutputs_union)
  also have "\<dots> = outputs s1"
    using ih p by simp
  finally have u: "undoOutputs (set (map t_id (chain_tx_rows (b # bs)))) (outputs s2) = outputs s1"
    by (simp only: ids)
  from p ih have "blocks s2 = blocks s1 @ map block_row_of (b # bs)"
    and "transactions s2 = transactions s1 @ chain_tx_rows (b # bs)"
    and "\<forall>b' \<in> set (b # bs). current_height s1 < block_height b'"
    by (auto simp: chain_tx_rows_def)
  with u show ?case by blast
qed

lemma store_inv_block_heights:
  "store_inv s \<Longrightarrow> b \<in> set (blocks s) \<Longrightarrow> b_height b \<le> current_height s"
proof -
  assume "store_inv s" and "b \<in> set (blocks s)"
  then have "b_height b \<in> set [1..current_height s]"
    by (metis store_inv_def image_eqI list.set_map)
  then show ?thesis by simp
qed

lemma rollback_closed_form:
  assumes "ingestAll s' bs = Some s" "store_inv s'" "current_height s' = T"
  shows "blocks s' = filter (\<lambda>b. b_height b \<le> T) (blocks s)
         \<and> transactions s' = filter (\<lambda>t. t_block_height t \<le> T) (transactions s)
         \<and> outputs s' = undoOutputs (set (map t_id (filter (\<lambda>t. T < t_block_height t) (transactions s))))
                          (outputs s)"
proof -
  note c = ingestAll_success [OF assms(1,2)]
  have old_b: "\<forall>b \<in> set (blocks s'). b_height b \<le> T"
    using store_inv_block_heights [OF assms(2)] assms(3) by auto
  have new_b: "\<forall>b \<in> set (map block_row_of bs). \<not> b_height b \<le> T"
    using c assms(3) by (auto simp: block_row_of_def)
  have old_t: "\<forall>t \<in> set (transactions s'). t_block_height t \<le> T"
    using store_inv_heights [OF assms(2)] assms(3) by auto
  have new_t: "\<forall>t \<in> set (chain_tx_rows bs). \<not> t_block_height t \<le> T"
    using c assms(3) by (auto simp: chain_tx_rows_def tx_row_of_def)
  have 1: "filter (\<lambda>b. b_height b \<le> T) (blocks s) = blocks s'"
    using c old_b new_b by (simp add: filter_id_conv filter_empty_conv)
  have 2: "filter (\<lambda>t. t_block_height t \<le> T) (transactions s) = transactions s'"
    using c old_t new_t by (simp add: filter_id_conv filter_empty_conv)
  have a: "filter (\<lambda>t. T < t_block_height t) (transactions s') = []"
    using old_t by (auto simp: filter_empty_conv)
  have b: "filter (\<lambda>t. T < t_block_height t) (chain_tx_rows bs) = chain_tx_rows bs"
    using new_t by (auto simp: filter_id_conv)
  have "filter (\<lambda>t. T < t_block_height t) (transactions s) = chain_tx_rows bs"
    using c a b by simp
  with c 1 2 show ?thesis by simp
qed

section \<open>The ids of the blocks of the test suite\<close>

text \<open>The digests the tests compute for their blocks at heights 1, 2 and 3.\<close>

lemma hash_1_tx1:
  "calculateBlockHash 1 [''tx1'']
     = ''d1582b9e2cac15e170c39ef2e85855ffd7e6a820550a8ca16a2f016d366503dc''"
  by code_simp

lemma hash_2_tx2:
  "calculateBlockHash 2 [''tx2'']
     = ''c4701d0bfd7179e1db6e33e947e6c718bbc4a1ae927300cd1e3bda91a930cba5''"
  by code_simp

lemma block2_id_fresh: "calculateBlockHash 2 [''tx2''] \<noteq> calculateBlockHash 1 [''tx1'']"
  by (simp add: hash_1_tx1 hash_2_tx2)

lemma genesis_ingested: "processBlock initial_store genesis = (None, store1)"
  by (simp add: ingest_defs test_defs)

lemma block2_ingested: "processBlock store1 block2 = (None, store2)"
  by (simp add: ingest_defs test_defs block2_id_fresh)

lemma reachable_store2: "reachable [genesis, block2] store2"
proof -
  have "reachable ([] @ [genesis]) store1"
    by (rule reachable_ingest [OF reachable_init genesis_ingested])
  then have "reachable (([] @ [genesis]) @ [block2]) store2"
    by (rule reachable_ingest [OF _ block2_ingested])
  then show ?thesis by simp
qed

section \<open>Rollback is the inverse of ingestion\<close>

text \<open>
  C5. Let the service be in a store \<open>s\<close> reached by any sequence of submissions and
  rollback requests, \<open>chain\<close> being the blocks now on the chain, and let
  \<open>0 \<le> T \<le> current_height s\<close> with \<open>current_height s - T \<le> 2000\<close>. Then the rollback
  to \<open>T\<close> succeeds, and in the store \<open>s'\<close> it leaves: the current height is \<open>T\<close>; the
  blocks and the transactions are those of \<open>s\<close> at heights up to \<open>T\<close>; the outputs are
  those of \<open>s\<close> without the ones created by a transaction above \<open>T\<close>, and with the ones
  spent by a transaction above \<open>T\<close> unspent and their spender cleared; \<open>s'\<close> is, row
  for row, the store in which the ingestion of the block at height \<open>T\<close> ended, so every
  balance is what it was then; and ingesting again the blocks rolled back, in order,
  succeeds and ends in \<open>s\<close>, as the first time.
\<close>

theorem rollback_restores:
  assumes "reachable chain s" and "0 \<le> T" and "T \<le> current_height s"
      and "current_height s - T \<le> 2000"
  shows "\<exists>s'. rollbackToHeight s T = (None, s')
           \<and> current_height s' = T
           \<and> blocks s' = filter (\<lambda>b. b_height b \<le> T) (blocks s)
           \<and> transactions s' = filter (\<lambda>t. t_block_height t \<le> T) (transactions s)
           \<and> outputs s' =
                undoOutputs (set (map t_id (filter (\<lambda>t. T < t_block_height t) (transactions s))))
                  (outputs s)
           \<and> ingestAll initial_store (take (nat T) chain) = Some s'
           \<and> (\<forall>a. getBalance s' a
                    = getBalance (the (ingestAll initial_store (take (nat T) chain))) a)
           \<and> ingestAll s' (drop (nat T) chain) = Some s"
proof -
  from reachable_ingestAll [OF assms(1)] have all: "ingestAll initial_store chain = Some s" .
  from rollback_exact [OF all assms(2,3,4)] obtain s' where
    r: "rollbackToHeight s T = (None, s')" and
    before: "ingestAll initial_store (take (nat T) chain) = Some s'" and
    h: "current_height s' = T"
    by blast
  from all have "ingestAll initial_store (take (nat T) chain @ drop (nat T) chain) = Some s"
    by simp
  with before have again: "ingestAll s' (drop (nat T) chain) = Some s"
    by (simp only: ingestAll_append option.case)
  from ingestAll_store_inv [OF before store_inv_initial] have "store_inv s'"
    by simp
  from rollback_closed_form [OF again this h] r before h again show ?thesis
    by simp
qed

theorem rollback_restores_witness:
  "rollbackToHeight store2 1 = (None, store1)
   \<and> processBlock store1 block2 = (None, store2)
   \<and> map (getBalance store2) [''addr1'', ''addr2'', ''addr3''] = [Inr 0, Inr 60, Inr 40]
   \<and> map (getBalance store1) [''addr1'', ''addr2'', ''addr3''] = [Inr 100, Inr 0, Inr 0]"
proof -
  have before: "ingestAll initial_store (take (nat 1) [genesis, block2]) = Some store1"
    by (simp add: genesis_ingested)
  from rollback_restores [OF reachable_store2, of 1] before
  have "rollbackToHeight store2 1 = (None, store1)"
    by (auto simp: store2_def)
  then show ?thesis
    by (simp add: block2_ingested) (simp add: getBalance_def test_defs pg_text_def toDouble_exact)
qed

section \<open>The hash check\<close>

text \<open>
  C9, as stated, fails: a block whose id differs from the digest but whose height is
  wrong is refused for its height, not for its hash. The height is checked first.
\<close>

theorem invalid_hash_not_iff_counterexample:
  "block_id block_wrong_height_and_hash
     \<noteq> calculateBlockHash (block_height block_wrong_height_and_hash)
         (map tx_id (block_transactions block_wrong_height_and_hash))
   \<and> fst (processBlock initial_store block_wrong_height_and_hash) = Some (InvalidHeight 1 5)"
  by (simp add: block_wrong_height_and_hash_def invalid_hash_differs ingest_defs test_defs)

text \<open>
  C9, amended. \<open>calculateBlockHash height txIds\<close> is the SHA-256 digest, in hexadecimal,
  of the decimal numeral of the height followed by the transaction ids in order, with no
  separator; it is a function of these two arguments alone. The ingestion fails with the
  invalid-hash error if and only if the block passes the height check and its id differs
  from \<open>calculateBlockHash\<close> of its height and of its transaction ids in declared order;
  the store is then unchanged.
\<close>

theorem invalid_hash_iff:
  "calculateBlockHash height txIds = sha256_hex (toString height @ concat txIds)
   \<and> ((\<exists>x y. fst (processBlock s block) = Some (InvalidHash x y))
        = (block_height block = current_height s + 1
           \<and> block_id block
               \<noteq> calculateBlockHash (block_height block) (map tx_id (block_transactions block))))
   \<and> (block_height block = current_height s + 1
        \<and> block_id block
            \<noteq> calculateBlockHash (block_height block) (map tx_id (block_transactions block))
        \<longrightarrow> processBlock s block
              = (Some (InvalidHash
                         (calculateBlockHash (block_height block)
                            (map tx_id (block_transactions block)))
                         (block_id block)), s))"
  by (auto simp: calculateBlockHash_def [symmetric] processBlock_def processBlock_try_def getCurrentHeight_def
                 Let_def step_error_def
           split: sum.splits prod.splits
           dest!: insertBlock_error processTransactions_error)

theorem invalid_hash_iff_witness:
  "processBlock initial_store block_invalid_hash
     = (Some (InvalidHash ''d1582b9e2cac15e170c39ef2e85855ffd7e6a820550a8ca16a2f016d366503dc''
                          ''invalid_hash''), initial_store)
   \<and> calculateBlockHash 1 [''tx1'']
       = ''d1582b9e2cac15e170c39ef2e85855ffd7e6a820550a8ca16a2f016d366503dc''
   \<and> fst (processBlock initial_store genesis) = None"
proof -
  have "block_height block_invalid_hash = current_height initial_store + 1
        \<and> block_id block_invalid_hash
            \<noteq> calculateBlockHash (block_height block_invalid_hash)
                (map tx_id (block_transactions block_invalid_hash))"
    by (simp add: test_defs invalid_hash_differs)
  with invalid_hash_iff [of _ _ initial_store block_invalid_hash]
  have "processBlock initial_store block_invalid_hash
          = (Some (InvalidHash (calculateBlockHash 1 [''tx1'']) ''invalid_hash''), initial_store)"
    by (simp add: test_defs)
  then show ?thesis
    by (simp add: hash_1_tx1 genesis_ingested)
qed

section \<open>Balances\<close>





section \<open>Spending an output of the same block\<close>

text \<open>
  C2. The claim is that a block passing the height and hash checks is accepted when each
  transaction spends only outputs that exist unspent at the moment it is processed,
  outputs of an earlier transaction of the same block included, and declares what it
  consumes. The code refuses such a block. \<open>block_chained\<close>, posted first, passes both
  checks; its first transaction issues 100 and its second consumes that output and
  declares 100. When the second is validated, the output of the first is in the working
  copy of the uncommitted transaction, unspent and of the right value, and the validator,
  which reads through the pool and not through the client of the transaction, does not
  find it: the block is refused with \<open>OutputNotFound\<close>.
\<close>

theorem chained_block_rejected:
  "block_height block_chained = current_height initial_store + 1
   \<and> block_id block_chained
       = calculateBlockHash (block_height block_chained)
           (map tx_id (block_transactions block_chained))
   \<and> block_transactions block_chained = [tx1, tx2_all]
   \<and> tx_inputs tx1 = []
   \<and> tx_inputs tx2_all = [\<lparr>in_txId = ''tx1'', in_index = 0\<rparr>]
   \<and> map out_value (tx_outputs tx2_all) = [100]
   \<and> processBlock_try initial_store block_chained
     = Inl (OutputNotFound ''tx1'' 0,
            \<lparr>blocks = [\<lparr>b_id = calculateBlockHash 1 [''tx1'', ''tx2''], b_height = 1\<rparr>],
             transactions = [\<lparr>t_id = ''tx1'', t_block_id = calculateBlockHash 1 [''tx1'', ''tx2''],
                              t_block_height = 1\<rparr>],
             outputs = [\<lparr>o_tx_id = ''tx1'', o_output_index = 0, o_address = ''addr1'',
                         o_value = 100, o_spent = False, o_spent_by_tx = None\<rparr>],
             current_height = 0\<rparr>)
   \<and> processBlock initial_store block_chained = (Some (OutputNotFound ''tx1'' 0), initial_store)"
  by (simp add: ingest_defs block_chained_def test_defs)

section \<open>Spending marks an output once\<close>

lemma markRows_rowCount:
  "(fst (markRows w sp t i) = 0) = (\<not> (\<exists>r \<in> set (outputs w). unspentAt t i r))"
  by (simp add: markRows_def filter_empty_conv)



lemma markRows_no_new_unspent:
  "r \<in> set (outputs (snd (markRows w sp t i))) \<Longrightarrow> unspentAt t' i' r \<Longrightarrow>
     r \<in> set (outputs w)"
  by (auto simp: markRows_def unspentAt_def split: if_splits)




lemma hasUnspent_unspentAt:
  "hasUnspent w t i = (\<exists>r \<in> set (outputs w). unspentAt t i r)"
  by (simp add: hasUnspent_def unspentAt_def)

lemma alreadySpent_no_unspent:
  "alreadySpent w t i \<Longrightarrow> \<not> hasUnspent w t i"
  by (auto simp: alreadySpent_def rowsAt_def hasUnspent_def list_all_iff)


lemma hasUnspent_outputs_cong:
  "outputs w' = outputs w \<Longrightarrow> hasUnspent w' t i = hasUnspent w t i"
  by (simp add: hasUnspent_def)

lemma acceptedId_iff: "acceptedId str = (pg_text str \<and> fits255 str)"
  by (simp add: acceptedId_def pg_text_def fits255_def)

lemma refusedInput_iff: "refusedInput i = (\<not> (pg_text (in_txId i) \<and> int4 (in_index i)))"
  by (auto simp: refusedInput_def pg_text_def int4_def)

lemma markSpent_accepted:
  "acceptedId sp \<Longrightarrow> \<not> refusedInput i \<Longrightarrow>
     markSpent w sp (in_txId i) (in_index i) = Inr (markRows w (take 255 sp) (in_txId i) (in_index i))"
  by (simp add: markSpent_def varchar255_def acceptedId_iff refusedInput_iff)


lemma spendInputs_fails:
  assumes "acceptedId sp"
  shows "\<forall>i \<in> set inputs. \<not> refusedInput i \<Longrightarrow>
     \<exists>i \<in> set inputs. \<not> hasUnspent w (in_txId i) (in_index i) \<Longrightarrow>
     \<exists>i \<in> set inputs. \<exists>d. spendInputs w sp inputs = Inl (DoubleSpend (in_txId i) (in_index i), d)"
proof (induction inputs arbitrary: w)
  case Nil
  then show ?case by simp
next
  case (Cons i inputs)
  obtain n w1 where m: "markRows w (take 255 sp) (in_txId i) (in_index i) = (n, w1)"
    by (cases "markRows w (take 255 sp) (in_txId i) (in_index i)")
  from Cons.prems(1) have "\<not> refusedInput i"
    by simp
  from markSpent_accepted [OF assms this, of w] m
  have ms: "markSpent w sp (in_txId i) (in_index i) = Inr (n, w1)"
    by simp
  show ?case
  proof (cases "n = 0")
    case True
    with ms show ?thesis by simp
  next
    case False
    with m markRows_rowCount [of w "take 255 sp" "in_txId i" "in_index i"]
    have head: "hasUnspent w (in_txId i) (in_index i)"
      by (simp add: hasUnspent_unspentAt)
    with Cons.prems(2) obtain j where
      j: "j \<in> set inputs" "\<not> hasUnspent w (in_txId j) (in_index j)"
      by auto
    have "\<not> hasUnspent w1 (in_txId j) (in_index j)"
    proof
      assume "hasUnspent w1 (in_txId j) (in_index j)"
      then obtain r where r: "r \<in> set (outputs w1)" "unspentAt (in_txId j) (in_index j) r"
        by (auto simp: hasUnspent_unspentAt)
      from m r(1) have "r \<in> set (outputs (snd (markRows w (take 255 sp) (in_txId i) (in_index i))))"
        by simp
      from markRows_no_new_unspent [OF this r(2)] r(2) j(2) show False
        by (auto simp: hasUnspent_unspentAt)
    qed
    with j(1) have 1: "\<exists>j \<in> set inputs. \<not> hasUnspent w1 (in_txId j) (in_index j)"
      by blast
    from Cons.prems(1) have 2: "\<forall>i \<in> set inputs. \<not> refusedInput i"
      by simp
    from Cons.IH [OF 2 1] False ms show ?thesis
      by auto
  qed
qed







lemma processTransactions_append:
  "processTransactions s block w (xs @ ys)
     = (case processTransactions s block w xs of
          Inl f \<Rightarrow> Inl f
        | Inr w' \<Rightarrow> processTransactions s block w' ys)"
  by (induction xs arbitrary: w) (auto split: sum.splits)

lemma insertTransaction_accepts:
  "insertTransaction w tid bid h = Inr w1 \<Longrightarrow> acceptedId tid"
  by (auto simp: insertTransaction_def acceptedId_iff split: if_splits)

lemma insertTransaction_accepted:
  "acceptedId tid \<Longrightarrow> acceptedId bid \<Longrightarrow> acceptedHeight h \<Longrightarrow>
     take 255 tid \<notin> set (map t_id (transactions w)) \<Longrightarrow>
     take 255 bid \<in> set (map b_id (blocks w)) \<Longrightarrow>
     \<exists>w1. insertTransaction w tid bid h = Inr w1"
  by (simp add: insertTransaction_def acceptedId_iff acceptedHeight_def int4_def varchar255_def)

lemma validateTransaction_accepts:
  "validateTransaction s tx = Inr () \<Longrightarrow> tx_inputs tx \<noteq> [] \<Longrightarrow>
     (\<forall>i \<in> set (tx_inputs tx). \<not> refusedInput i) \<and> missingInputs s tx = []
     \<and> inputSum s tx = outputSum tx"
proof -
  assume v: "validateTransaction s tx = Inr ()" and ne: "tx_inputs tx \<noteq> []"
  then have b: "badInputs s tx = []" and eq: "inputSum s tx = outputSum tx"
    by (auto simp: validateTransaction_eq split: list.splits if_splits)
  from b have "\<forall>i \<in> set (tx_inputs tx). \<not> refusedInput i \<and> rowsAt s (in_txId i) (in_index i) \<noteq> []"
    by (simp add: badInputs_def filter_empty_conv)
  with eq show ?thesis
    by (simp add: missingInputs_def filter_empty_conv)
qed

lemma processTransaction_double_spend:
  assumes "validateTransaction s tx = Inr ()"
      and "insertTransaction w (tx_id tx) (block_id block) (block_height block) = Inr w1"
      and "\<exists>i \<in> set (tx_inputs tx). \<not> hasUnspent w (in_txId i) (in_index i)"
  shows "\<exists>i \<in> set (tx_inputs tx). \<exists>d.
           processTransaction s block w tx = Inl (DoubleSpend (in_txId i) (in_index i), d)"
proof -
  from insertTransaction_Inr [OF assms(2)] have o1: "outputs w1 = outputs w"
    by simp
  from assms(3) have ne: "tx_inputs tx \<noteq> []"
    by auto
  from validateTransaction_accepts [OF assms(1) ne]
  have acc: "\<forall>i \<in> set (tx_inputs tx). \<not> refusedInput i"
    by simp
  from assms(3) have "\<exists>i \<in> set (tx_inputs tx). \<not> hasUnspent w1 (in_txId i) (in_index i)"
    by (simp add: hasUnspent_outputs_cong [OF o1])
  from spendInputs_fails [OF insertTransaction_accepts [OF assms(2)] acc this] assms(1,2)
  show ?thesis
    by (auto simp: processTransaction_def)
qed




lemma insertBlock_accepted:
  "acceptedHeight h \<Longrightarrow> calculateBlockHash h ids \<notin> set (map b_id (blocks s)) \<Longrightarrow>
     h \<notin> set (map b_height (blocks s)) \<Longrightarrow>
     insertBlock s (calculateBlockHash h ids) h
       = Inr (s\<lparr>blocks := blocks s @ [\<lparr>b_id = calculateBlockHash h ids, b_height = h\<rparr>]\<rparr>)"
  by (simp add: insertBlock_def digest_accepted acceptedHeight_def int4_def)

lemma processBlock_first_double_spend:
  assumes h: "block_height block = current_height s + 1"
      and hash: "block_id block
                   = calculateBlockHash (block_height block) (map tx_id (block_transactions block))"
      and ah: "acceptedHeight (block_height block)"
      and fb: "block_id block \<notin> set (map b_id (blocks s))"
      and fh: "block_height block \<notin> set (map b_height (blocks s))"
      and txs: "block_transactions block = tx # post"
      and id: "acceptedId (tx_id tx)"
      and ft: "take 255 (tx_id tx) \<notin> set (map t_id (transactions s))"
      and v: "validateTransaction s tx = Inr ()"
      and sp: "\<exists>i \<in> set (tx_inputs tx). \<not> hasUnspent s (in_txId i) (in_index i)"
  shows "\<exists>i \<in> set (tx_inputs tx).
           processBlock s block = (Some (DoubleSpend (in_txId i) (in_index i)), s)"
proof -
  let ?w0 = "s\<lparr>blocks := blocks s @ [\<lparr>b_id = block_id block, b_height = block_height block\<rparr>]\<rparr>"
  from ah fb fh have ib: "insertBlock s (block_id block) (block_height block) = Inr ?w0"
    unfolding hash by (rule insertBlock_accepted)
  have bid: "acceptedId (block_id block)" "take 255 (block_id block) = block_id block"
    unfolding hash using digest_accepted by (simp_all add: acceptedId_iff varchar255_def)
  from insertTransaction_accepted [OF id bid(1) ah, of ?w0] ft bid(2) obtain w1 where
    it: "insertTransaction ?w0 (tx_id tx) (block_id block) (block_height block) = Inr w1"
    by auto
  from sp have "\<exists>i \<in> set (tx_inputs tx). \<not> hasUnspent ?w0 (in_txId i) (in_index i)"
    by (simp add: hasUnspent_def)
  from processTransaction_double_spend [OF v it this] obtain i d where
    i: "i \<in> set (tx_inputs tx)" and
    f: "processTransaction s block ?w0 tx = Inl (DoubleSpend (in_txId i) (in_index i), d)"
    by blast
  from h hash ib txs f
  have "processBlock s block = (Some (DoubleSpend (in_txId i) (in_index i)), s)"
    by (simp add: processBlock_def processBlock_try_def getCurrentHeight_def Let_def)
  with i show ?thesis
    by blast
qed


section \<open>Validation and the spent flag\<close>

lemma hash_3_tx3:
  "calculateBlockHash 3 [''tx3'']
     = ''4e5f22a2abacfaf2dcaaeb1652aec4eb65028d0f831fa435e6b1ee931c6799ec''"
  by code_simp

lemma hash_3_tx2:
  "calculateBlockHash 3 [''tx2'']
     = ''d973a1a84c65880bdaf39c0a3c48e1daaeb974029467bacd39a4d76d7a8f2c7b''"
  by code_simp

lemma block3_id_fresh:
  "calculateBlockHash 3 [''tx3''] \<noteq> calculateBlockHash 1 [''tx1'']
   \<and> calculateBlockHash 3 [''tx3''] \<noteq> calculateBlockHash 2 [''tx2'']
   \<and> calculateBlockHash 3 [''tx2''] \<noteq> calculateBlockHash 1 [''tx1'']
   \<and> calculateBlockHash 3 [''tx2''] \<noteq> calculateBlockHash 2 [''tx2'']"
  by (simp add: hash_1_tx1 hash_2_tx2 hash_3_tx3 hash_3_tx2)

lemmas more_defs = tx3_def block3_def tx3_short_def block3_short_def tx2_again_def
  block3_again_def block_orphan_def

lemma block3_double_spend:
  "processBlock store2 block3 = (Some (DoubleSpend ''tx1'' 0), store2)"
  by (simp add: ingest_defs test_defs more_defs block3_id_fresh)

lemma validateTransaction_spent_flags:
  "validateTransaction (s\<lparr>outputs := map (\<lambda>r. r\<lparr>o_spent := f r, o_spent_by_tx := g r\<rparr>) (outputs s)\<rparr>) tx
     = validateTransaction s tx"
proof -
  let ?s' = "s\<lparr>outputs := map (\<lambda>r. r\<lparr>o_spent := f r, o_spent_by_tx := g r\<rparr>) (outputs s)\<rparr>"
  have r: "rowsAt ?s' t i = map (\<lambda>r. r\<lparr>o_spent := f r, o_spent_by_tx := g r\<rparr>) (rowsAt s t i)"
    for t i
    by (simp add: rowsAt_def filter_map o_def)
  have "referencedValue ?s' = referencedValue s"
    by (rule ext) (simp add: referencedValue_def r split: list.splits)
  then have 1: "inputSum ?s' tx = inputSum s tx"
    by (simp only: inputSum_def)
  have 2: "badInputs ?s' tx = badInputs s tx"
    by (simp add: badInputs_def r)
  show ?thesis
    by (simp only: validateTransaction_eq 1 2)
qed

text \<open>
  C10, as stated, fails in its last part. After \<open>genesis\<close> and \<open>block2\<close> the output
  \<open>tx1[0]\<close> is stored and spent. A transaction that references it and declares another
  sum is refused by the validator with a value mismatch; one that declares the same sum
  but carries an id already stored is refused when its row is inserted, with a store
  fault. Neither reaches the spend-marking step.
\<close>

theorem spent_outputs_rejected_by_marking_counterexample:
  "tx_inputs tx3_short \<noteq> [] \<and> missingInputs store2 tx3_short = []
   \<and> alreadySpent store2 ''tx1'' 0
   \<and> fst (processBlock store2 block3_short) = Some (ValueMismatch ''tx3'' 100 50)
   \<and> tx_inputs tx2_again \<noteq> [] \<and> missingInputs store2 tx2_again = []
   \<and> exactInputSum store2 tx2_again = exactOutputSum tx2_again
   \<and> validateTransaction store2 tx2_again = Inr ()
   \<and> fst (processBlock store2 block3_again) = Some (StoreFault ''transactions_pkey'')"
  by (simp add: ingest_defs test_defs more_defs block3_id_fresh missingInputs_def
                exactInputSum_def exactOutputSum_def referencedValue_def alreadySpent_def
                rowsAt_def)

text \<open>
  C10, amended. The validation never consults the spent flag: it gives the same result
  whatever the spent flags and spender references of the stored outputs are, and for a
  transaction with at least one input, each accepted by the database and referencing a
  stored output, spent or not, it succeeds exactly when the sum of the referenced values
  equals the sum of the declared outputs (both formed in doubles). When such a
  transaction passes the validation and references an output that is already spent, the
  spend-marking step fails with the double-spend error once the row of the transaction is
  recorded; and when the ingestion of its block reaches that transaction (the block row
  and the earlier transactions were recorded), the ingestion fails with the double-spend
  error and the store is unchanged. In particular this is so when the transaction is the
  first of a block that passes the height and hash checks, with a height and ids that are
  new and that the database accepts.
\<close>

theorem spent_outputs_rejected_by_marking:
  "validateTransaction
       (s\<lparr>outputs := map (\<lambda>r. r\<lparr>o_spent := f r, o_spent_by_tx := g r\<rparr>) (outputs s)\<rparr>) tx
     = validateTransaction s tx
   \<and> (tx_inputs tx \<noteq> [] \<and> (\<forall>i \<in> set (tx_inputs tx). \<not> refusedInput i)
        \<and> missingInputs s tx = [] \<longrightarrow>
        (validateTransaction s tx = Inr ()) = (inputSum s tx = outputSum tx))
   \<and> (validateTransaction s tx = Inr ()
        \<and> insertTransaction w (tx_id tx) (block_id block) (block_height block) = Inr w1
        \<and> (\<exists>i \<in> set (tx_inputs tx). alreadySpent w (in_txId i) (in_index i))
        \<longrightarrow> (\<exists>i \<in> set (tx_inputs tx). \<exists>d.
               processTransaction s block w tx = Inl (DoubleSpend (in_txId i) (in_index i), d)))
   \<and> (block_height block = current_height s + 1
        \<and> block_id block
            = calculateBlockHash (block_height block) (map tx_id (block_transactions block))
        \<and> insertBlock s (block_id block) (block_height block) = Inr w0
        \<and> block_transactions block = pre @ tx # post
        \<and> processTransactions s block w0 pre = Inr w
        \<and> validateTransaction s tx = Inr ()
        \<and> insertTransaction w (tx_id tx) (block_id block) (block_height block) = Inr w1
        \<and> (\<exists>i \<in> set (tx_inputs tx). alreadySpent w (in_txId i) (in_index i))
        \<longrightarrow> (\<exists>i \<in> set (tx_inputs tx).
               processBlock s block = (Some (DoubleSpend (in_txId i) (in_index i)), s)))
   \<and> (block_height block = current_height s + 1
        \<and> block_id block
            = calculateBlockHash (block_height block) (map tx_id (block_transactions block))
        \<and> acceptedHeight (block_height block)
        \<and> block_id block \<notin> set (map b_id (blocks s))
        \<and> block_height block \<notin> set (map b_height (blocks s))
        \<and> block_transactions block = tx # post
        \<and> acceptedId (tx_id tx)
        \<and> take 255 (tx_id tx) \<notin> set (map t_id (transactions s))
        \<and> (\<forall>i \<in> set (tx_inputs tx). \<not> refusedInput i)
        \<and> missingInputs s tx = []
        \<and> inputSum s tx = outputSum tx
        \<and> (\<exists>i \<in> set (tx_inputs tx). alreadySpent s (in_txId i) (in_index i))
        \<longrightarrow> (\<exists>i \<in> set (tx_inputs tx).
               processBlock s block = (Some (DoubleSpend (in_txId i) (in_index i)), s)))"
proof -
  have a: "validateTransaction
       (s\<lparr>outputs := map (\<lambda>r. r\<lparr>o_spent := f r, o_spent_by_tx := g r\<rparr>) (outputs s)\<rparr>) tx
     = validateTransaction s tx"
    by (rule validateTransaction_spent_flags)
  have b: "tx_inputs tx \<noteq> [] \<and> (\<forall>i \<in> set (tx_inputs tx). \<not> refusedInput i)
        \<and> missingInputs s tx = [] \<longrightarrow>
        (validateTransaction s tx = Inr ()) = (inputSum s tx = outputSum tx)"
    by (auto simp: validateTransaction_eq badInputs_accepted)
  have c: "\<exists>i \<in> set (tx_inputs tx). \<exists>d.
             processTransaction s block w tx = Inl (DoubleSpend (in_txId i) (in_index i), d)"
    if "validateTransaction s tx = Inr ()"
       "insertTransaction w (tx_id tx) (block_id block) (block_height block) = Inr w1"
       "\<exists>i \<in> set (tx_inputs tx). alreadySpent w (in_txId i) (in_index i)"
  proof -
    from that(3) have "\<exists>i \<in> set (tx_inputs tx). \<not> hasUnspent w (in_txId i) (in_index i)"
      using alreadySpent_no_unspent by blast
    from processTransaction_double_spend [OF that(1,2) this] show ?thesis .
  qed
  have d: "\<exists>i \<in> set (tx_inputs tx).
             processBlock s block = (Some (DoubleSpend (in_txId i) (in_index i)), s)"
    if h: "block_height block = current_height s + 1"
       "block_id block
          = calculateBlockHash (block_height block) (map tx_id (block_transactions block))"
       "insertBlock s (block_id block) (block_height block) = Inr w0"
       "block_transactions block = pre @ tx # post"
       "processTransactions s block w0 pre = Inr w"
       "validateTransaction s tx = Inr ()"
       "insertTransaction w (tx_id tx) (block_id block) (block_height block) = Inr w1"
       "\<exists>i \<in> set (tx_inputs tx). alreadySpent w (in_txId i) (in_index i)"
  proof -
    from c [OF h(6,7,8)] obtain i d where
      i: "i \<in> set (tx_inputs tx)" and
      f: "processTransaction s block w tx = Inl (DoubleSpend (in_txId i) (in_index i), d)"
      by blast
    from h(5) f have "processTransactions s block w0 (pre @ tx # post)
                        = Inl (DoubleSpend (in_txId i) (in_index i), d)"
      by (simp add: processTransactions_append)
    with h(1,2,3,4) have "processBlock s block = (Some (DoubleSpend (in_txId i) (in_index i)), s)"
      by (simp add: processBlock_def processBlock_try_def getCurrentHeight_def Let_def)
    with i show ?thesis by blast
  qed
  have e: "\<exists>i \<in> set (tx_inputs tx).
             processBlock s block = (Some (DoubleSpend (in_txId i) (in_index i)), s)"
    if h: "block_height block = current_height s + 1"
       "block_id block
          = calculateBlockHash (block_height block) (map tx_id (block_transactions block))"
       "acceptedHeight (block_height block)"
       "block_id block \<notin> set (map b_id (blocks s))"
       "block_height block \<notin> set (map b_height (blocks s))"
       "block_transactions block = tx # post"
       "acceptedId (tx_id tx)"
       "take 255 (tx_id tx) \<notin> set (map t_id (transactions s))"
       "\<forall>i \<in> set (tx_inputs tx). \<not> refusedInput i"
       "missingInputs s tx = []"
       "inputSum s tx = outputSum tx"
       "\<exists>i \<in> set (tx_inputs tx). alreadySpent s (in_txId i) (in_index i)"
  proof -
    from h(12) have ne: "tx_inputs tx \<noteq> []"
      by auto
    with b h(9,10,11) have v: "validateTransaction s tx = Inr ()"
      by simp
    from h(12) have "\<exists>i \<in> set (tx_inputs tx). \<not> hasUnspent s (in_txId i) (in_index i)"
      using alreadySpent_no_unspent by blast
    from processBlock_first_double_spend [OF h(1,2,3,4,5,6,7,8) v this] show ?thesis .
  qed
  from a b c d e show ?thesis
    by blast
qed

theorem spent_outputs_rejected_by_marking_witness:
  "validateTransaction store2 tx3 = Inr ()
   \<and> alreadySpent store2 ''tx1'' 0
   \<and> processBlock store2 block3 = (Some (DoubleSpend ''tx1'' 0), store2)
   \<and> (\<exists>d. processTransaction store2 block2 store2 tx3 = Inl (DoubleSpend ''tx1'' 0, d))"
proof -
  define w0 where "w0 = store2\<lparr>blocks := blocks store2
      @ [\<lparr>b_id = calculateBlockHash 3 [''tx3''], b_height = 3\<rparr>]\<rparr>"
  define w1 where "w1 = w0\<lparr>transactions := transactions w0
      @ [\<lparr>t_id = ''tx3'', t_block_id = calculateBlockHash 3 [''tx3''], t_block_height = 3\<rparr>]\<rparr>"
  define w2 where "w2 = store2\<lparr>transactions := transactions store2
      @ [\<lparr>t_id = ''tx3'', t_block_id = calculateBlockHash 2 [''tx2''], t_block_height = 2\<rparr>]\<rparr>"
  have a: "alreadySpent store2 ''tx1'' 0"
    by (simp add: alreadySpent_def rowsAt_def store2_def)
  have v: "tx_inputs tx3 \<noteq> [] \<and> (\<forall>i \<in> set (tx_inputs tx3). \<not> refusedInput i)
           \<and> missingInputs store2 tx3 = [] \<and> inputSum store2 tx3 = outputSum tx3"
    by (simp add: test_defs more_defs refusedInput_def missingInputs_def rowsAt_def inputSum_def
                  outputSum_def jsSum_def referencedValue_def toDouble_exact)
  have h: "block_height block3 = current_height store2 + 1
           \<and> block_id block3
               = calculateBlockHash (block_height block3) (map tx_id (block_transactions block3))
           \<and> acceptedHeight (block_height block3)
           \<and> block_id block3 \<notin> set (map b_id (blocks store2))
           \<and> block_height block3 \<notin> set (map b_height (blocks store2))
           \<and> block_transactions block3 = tx3 # []
           \<and> acceptedId (tx_id tx3)
           \<and> take 255 (tx_id tx3) \<notin> set (map t_id (transactions store2))"
    by (simp add: test_defs more_defs block3_id_fresh acceptedHeight_def acceptedId_def)
  have i: "\<exists>i \<in> set (tx_inputs tx3). alreadySpent store2 (in_txId i) (in_index i)"
    using a by (simp add: tx3_def)
  from spent_outputs_rejected_by_marking
         [where s = store2 and tx = tx3 and block = block3 and post = "[]"]
       h v i
  have "validateTransaction store2 tx3 = Inr ()
        \<and> (\<exists>i \<in> set (tx_inputs tx3).
             processBlock store2 block3 = (Some (DoubleSpend (in_txId i) (in_index i)), store2))"
    by blast
  then have e: "validateTransaction store2 tx3 = Inr ()
             \<and> processBlock store2 block3 = (Some (DoubleSpend ''tx1'' 0), store2)"
    by (simp add: tx3_def)
  have it: "insertTransaction store2 (tx_id tx3) (block_id block2) (block_height block2) = Inr w2"
    by (simp add: w2_def insertTransaction_def accepted_simps test_defs more_defs)
  from spent_outputs_rejected_by_marking
         [where s = store2 and tx = tx3 and block = block2 and w = store2 and ?w1.0 = w2]
       e it i
  have "\<exists>i \<in> set (tx_inputs tx3). \<exists>d.
          processTransaction store2 block2 store2 tx3
            = Inl (DoubleSpend (in_txId i) (in_index i), d)"
    by blast
  then have c: "\<exists>d. processTransaction store2 block2 store2 tx3 = Inl (DoubleSpend ''tx1'' 0, d)"
    by (simp add: tx3_def)
  have a0: "\<exists>i \<in> set (tx_inputs tx3). alreadySpent w0 (in_txId i) (in_index i)"
    by (simp add: w0_def alreadySpent_def rowsAt_def store2_def tx3_def)
  have hd: "block_height block3 = current_height store2 + 1
           \<and> block_id block3
               = calculateBlockHash (block_height block3) (map tx_id (block_transactions block3))
           \<and> insertBlock store2 (block_id block3) (block_height block3) = Inr w0
           \<and> block_transactions block3 = [] @ tx3 # []
           \<and> processTransactions store2 block3 w0 [] = Inr w0
           \<and> insertTransaction w0 (tx_id tx3) (block_id block3) (block_height block3) = Inr w1"
    by (simp add: w0_def w1_def insertBlock_def insertTransaction_def accepted_simps test_defs
                  more_defs block3_id_fresh)
  from spent_outputs_rejected_by_marking
         [where s = store2 and tx = tx3 and block = block3 and pre = "[]" and post = "[]"
            and ?w0.0 = w0 and w = w0 and ?w1.0 = w1]
       hd e a0
  have d: "\<exists>i \<in> set (tx_inputs tx3).
          processBlock store2 block3 = (Some (DoubleSpend (in_txId i) (in_index i)), store2)"
    by blast
  from a e c show ?thesis by simp
qed

section \<open>An output is spent at most once\<close>




end
